theory Spec2Isabelle
  imports Complex_Main
begin

section \<open>The fishing-net background animation (background.js)\<close>

text \<open>
  The script builds a wireframe net of \<open>2 * gridSize\<close> polylines once
  (\<open>createFishingNet\<close>), and then rewrites the depth of every vertex on each
  animation frame (\<open>animate\<close>). A resize listener keeps the camera and the
  renderer in step with the window.

  Numbers. The formulas of the script are embedded over \<^typ>\<open>real\<close>, with
  \<open>Math.sin\<close>, \<open>Math.cos\<close> and \<open>Math.floor\<close> as \<^const>\<open>sin\<close>, \<^const>\<open>cos\<close> and
  \<^const>\<open>floor\<close>: a statement about \<open>createFishingNet\<close> or \<open>animate\<close> below says
  which expression the script evaluates at which point. Where a statement
  compares the values of two different expressions, the rounding of binary64
  decides, and the per-frame depth is then evaluated operation by operation in
  binary64 (\<open>depth64\<close>). The single-precision vertex buffer that the rendering
  library allocates is not part of this model.

  The rendering library. \<open>THREE.Group\<close>, \<open>THREE.Line\<close> and
  \<open>THREE.BufferGeometry\<close> are not code of the script. What the script relies on
  is modelled directly: a group is the list of its children, in the order they
  were added, together with its rotation; a line is the flat position buffer
  \<open>[x0, y0, z0, x1, y1, z1, ...]\<close> that \<open>setFromPoints\<close> fills, together with the
  \<open>needsUpdate\<close> flag of that buffer.
\<close>

subsection \<open>Data\<close>

text \<open>
  An entry \<open>{ x, y, baseZ }\<close> of the \<open>netGeometry\<close> table. The fields \<open>x\<close> and
  \<open>y\<close> are called \<open>cell_x\<close> and \<open>cell_y\<close> here, so that \<open>x\<close> and \<open>y\<close> stay
  available as variables.
\<close>

record cell =
  cell_x :: real
  cell_y :: real
  baseZ :: real

text \<open>A \<open>THREE.Vector3\<close>.\<close>

record vector3 =
  vx :: real
  vy :: real
  vz :: real

text \<open>
  A \<open>THREE.Line\<close>: \<open>line.geometry.attributes.position.array\<close> and
  \<open>line.geometry.attributes.position.needsUpdate\<close>.
\<close>

record line =
  positions :: "real list"
  needsUpdate :: bool

text \<open>The \<open>THREE.Group\<close> holding the net: its children and its rotation.\<close>

record group =
  children :: "line list"
  rotation_x :: real
  rotation_y :: real

text \<open>The mutable state the animation works on: the global \<open>time\<close> and the net.\<close>

record state =
  time :: real
  fishingNet :: group

subsection \<open>createFishingNet\<close>

definition gridSize :: nat where
  "gridSize = 25"

definition spacing :: real where
  "spacing = 1.0"

text \<open>The inner loop of "GENERATE BASE COORDINATES": row \<open>i\<close> of the table.\<close>

definition rowCoords :: "nat \<Rightarrow> cell list" where
  "rowCoords i =
     map (\<lambda>j. \<lparr> cell_x = (real j - real gridSize / 2) * spacing,
                cell_y = (real i - real gridSize / 2) * spacing,
                baseZ = 0 \<rparr>)
         [0..<gridSize]"

definition netGeometry :: "cell list list" where
  "netGeometry = map rowCoords [0..<gridSize]"

text \<open>
  \<open>new THREE.BufferGeometry().setFromPoints(points)\<close>: the coordinates of the
  points, three numbers per point, in order.
\<close>

definition setFromPoints :: "vector3 list \<Rightarrow> real list" where
  "setFromPoints points = concat (map (\<lambda>p. [vx p, vy p, vz p]) points)"

text \<open>"CREATE HORIZONTAL LINES": the points of the line of row \<open>i\<close>.\<close>

definition horizontalPoints :: "nat \<Rightarrow> vector3 list" where
  "horizontalPoints i =
     map (\<lambda>j. let coord = netGeometry ! i ! j;
                  z = sin (real j * 0.3 + real i * 0.3) * 1
                      + cos ((cell_x coord + cell_y coord) * 0.2) * 0.5
              in \<lparr> vx = cell_x coord, vy = cell_y coord, vz = z \<rparr>)
         [0..<gridSize]"

text \<open>"CREATE VERTICAL LINES": the points of the line of column \<open>j\<close>.\<close>

definition verticalPoints :: "nat \<Rightarrow> vector3 list" where
  "verticalPoints j =
     map (\<lambda>i. let coord = netGeometry ! i ! j;
                  z = cos (real j * 0.3 + real i * 0.3) * 1
                      + sin ((cell_x coord + cell_y coord) * 0.2) * 0.5
              in \<lparr> vx = cell_x coord, vy = cell_y coord, vz = z \<rparr>)
         [0..<gridSize]"

definition newLine :: "vector3 list \<Rightarrow> line" where
  "newLine points = \<lparr> positions = setFromPoints points, needsUpdate = False \<rparr>"

text \<open>
  The function returns the group and the table. The horizontal lines are added
  to the group first, then the vertical ones.
\<close>

definition createFishingNet :: "group \<times> cell list list" where
  "createFishingNet =
     (\<lparr> children = map (\<lambda>i. newLine (horizontalPoints i)) [0..<gridSize]
                    @ map (\<lambda>j. newLine (verticalPoints j)) [0..<gridSize],
        rotation_x = 0,
        rotation_y = 0 \<rparr>,
      netGeometry)"

text \<open>The state when \<open>animate\<close> is first called: \<open>time = 0\<close> and the new net.\<close>

definition initial :: state where
  "initial = \<lparr> time = 0, fishingNet = fst createFishingNet \<rparr>"

subsection \<open>animate\<close>

text \<open>
  The expression that \<open>animate\<close> assigns to \<open>z\<close>, as a function of the \<open>x\<close> and
  \<open>y\<close> it has read and of \<open>time\<close>, read over the real numbers. The same expression
  with the rounding of every operation is \<open>depth64\<close> below.
\<close>

definition depth :: "real \<Rightarrow> real \<Rightarrow> real \<Rightarrow> real" where
  "depth x y t = sin (x * 0.3 + y * 0.3 + t) * 1 + cos ((x + y) * 0.2) * 0.5"

text \<open>
  The loop \<open>for (let i = 0; i < positions.length; i += 3)\<close> over one position
  buffer. The buffer is a typed array: a write beyond its end is ignored, which
  is what \<open>ps[i + 2 := z]\<close> does there. A read beyond the end can only happen
  together with such an ignored write.
\<close>

function updatePositions :: "real \<Rightarrow> real list \<Rightarrow> nat \<Rightarrow> real list" where
  "updatePositions t ps i =
     (if i < length ps then
        (let x = ps ! i;
             y = ps ! (i + 1);
             z = depth x y t
         in updatePositions t (ps[i + 2 := z]) (i + 3))
      else ps)"
  by pat_completeness auto
termination
  by (relation "measure (\<lambda>(t, ps, i). length ps - i)") auto

text \<open>The body of \<open>fishingNet.children.forEach\<close>.\<close>

definition updateLine :: "real \<Rightarrow> line \<Rightarrow> line" where
  "updateLine t l = l\<lparr> positions := updatePositions t (positions l) 0, needsUpdate := True \<rparr>"

text \<open>
  One call of \<open>animate\<close>. The argument \<open>r\<close> is the value \<open>Math.random()\<close> returns
  in this call. \<open>requestAnimationFrame\<close> and \<open>renderer.render\<close> do not change the
  state modelled here.
\<close>

definition animate :: "real \<Rightarrow> state \<Rightarrow> state" where
  "animate r s =
     (let t = time s + of_int \<lfloor>r * 20\<rfloor> * 0.001;
          net = fishingNet s
      in \<lparr> time = t,
           fishingNet = net\<lparr> rotation_x := pi / 4 + sin t * 0.1,
                             rotation_y := cos t * 0.2,
                             children := map (updateLine t) (children net) \<rparr> \<rparr>)"

text \<open>A run of frames: one call of \<open>animate\<close> per random draw, in order.\<close>

fun run :: "real list \<Rightarrow> state \<Rightarrow> state" where
  "run [] s = s"
| "run (r # rs) s = run rs (animate r s)"

text \<open>
  The points of a line, read from its buffer: point \<open>p\<close> occupies the indices
  \<open>3 * p\<close>, \<open>3 * p + 1\<close> and \<open>3 * p + 2\<close>, and the buffer holds \<open>pointCount\<close>
  complete points.
\<close>

definition pointCount :: "line \<Rightarrow> nat" where
  "pointCount l = length (positions l) div 3"

definition px :: "line \<Rightarrow> nat \<Rightarrow> real" where
  "px l p = positions l ! (3 * p)"

definition py :: "line \<Rightarrow> nat \<Rightarrow> real" where
  "py l p = positions l ! (3 * p + 1)"

definition pz :: "line \<Rightarrow> nat \<Rightarrow> real" where
  "pz l p = positions l ! (3 * p + 2)"

subsection \<open>The depth expression in binary64\<close>

text \<open>
  The script computes with binary64 numbers. \<open>rnd64\<close> rounds a real number to
  the nearest binary64 number, ties to the even significand: the significand
  has 53 bits and the exponent of a normal number is at least \<open>-1022\<close>. Overflow
  to \<open>Infinity\<close> is not part of it; every value that is rounded below is smaller
  than \<open>8\<close>.
\<close>

definition round_even :: "real \<Rightarrow> int" where
  "round_even y =
     (let f = \<lfloor>y\<rfloor>; d = y - of_int f
      in if d < 1 / 2 then f else if 1 / 2 < d then f + 1 else if even f then f else f + 1)"

definition pow2 :: "int \<Rightarrow> real" where
  "pow2 k = (if 0 \<le> k then 2 ^ nat k else 1 / 2 ^ nat (- k))"

definition exponent :: "real \<Rightarrow> int" where
  "exponent x = max \<lfloor>log 2 \<bar>x\<bar>\<rfloor> (- 1022)"

definition rnd64 :: "real \<Rightarrow> real" where
  "rnd64 x =
     (if x = 0 then 0
      else (let u = pow2 (exponent x - 52) in u * of_int (round_even (x / u))))"

text \<open>
  The operators \<open>+\<close> and \<open>*\<close> of the script round the exact result. A decimal
  literal such as \<open>0.3\<close> denotes the binary64 number nearest to it,
  \<open>rnd64 0.3\<close>; the integers that occur are binary64 numbers themselves.
\<close>

definition js_add :: "real \<Rightarrow> real \<Rightarrow> real" where
  "js_add a b = rnd64 (a + b)"

definition js_mul :: "real \<Rightarrow> real \<Rightarrow> real" where
  "js_mul a b = rnd64 (a * b)"

text \<open>
  ECMAScript leaves the precision of \<open>Math.sin\<close> and \<open>Math.cos\<close> to the
  implementation. They are taken here as the sine and the cosine rounded to the
  nearest binary64 number.
\<close>

definition Math_sin :: "real \<Rightarrow> real" where
  "Math_sin x = rnd64 (sin x)"

definition Math_cos :: "real \<Rightarrow> real" where
  "Math_cos x = rnd64 (cos x)"

text \<open>
  The expression of \<open>depth\<close> again, now with every operation as the script
  performs it: the argument that reaches \<open>Math.sin\<close>, the argument that reaches
  \<open>Math.cos\<close>, and the value assigned to \<open>z\<close>.
\<close>

definition sin_argument64 :: "real \<Rightarrow> real \<Rightarrow> real \<Rightarrow> real" where
  "sin_argument64 x y t = js_add (js_add (js_mul x (rnd64 0.3)) (js_mul y (rnd64 0.3))) t"

definition cos_argument64 :: "real \<Rightarrow> real \<Rightarrow> real" where
  "cos_argument64 x y = js_mul (js_add x y) (rnd64 0.2)"

definition depth64 :: "real \<Rightarrow> real \<Rightarrow> real \<Rightarrow> real" where
  "depth64 x y t =
     js_add (js_mul (Math_sin (sin_argument64 x y t)) 1)
            (js_mul (Math_cos (cos_argument64 x y)) (rnd64 0.5))"

subsection \<open>Enclosing a sine or a cosine\<close>

text \<open>
  To evaluate \<open>Math_sin\<close> and \<open>Math_cos\<close> at a given argument, the sine and the
  cosine are enclosed by partial sums of their Taylor series. \<open>tterm d t0 q k\<close>
  is the \<open>k\<close>-th term without its sign: with \<open>d = 1\<close>, \<open>t0 = x\<close> and \<open>q = x * x\<close> it
  is \<open>x ^ (2 * k + 1) / (2 * k + 1)!\<close>, with \<open>d = 0\<close> and \<open>t0 = 1\<close> it is
  \<open>x ^ (2 * k) / (2 * k)!\<close>. \<open>psum\<close> is the alternating sum of the first \<open>K\<close> terms.
  \<open>enclose\<close> computes integer bounds of \<open>psum\<close> scaled by \<open>2 ^ 80\<close>, from integer
  bounds of the scaled \<open>q\<close> and of the scaled first term, rounding every quotient
  outwards.
\<close>

primrec tterm :: "nat \<Rightarrow> real \<Rightarrow> real \<Rightarrow> nat \<Rightarrow> real" where
  "tterm d t0 q 0 = t0"
| "tterm d t0 q (Suc k) = tterm d t0 q k * q / (real (2 * k + 1 + d) * real (2 * k + 2 + d))"

definition psum :: "nat \<Rightarrow> real \<Rightarrow> real \<Rightarrow> nat \<Rightarrow> real" where
  "psum d t0 q K = (\<Sum>k<K. (- 1) ^ k * tterm d t0 q k)"

definition scale :: int where
  "scale = 2 ^ 80"

fun enclose :: "nat \<Rightarrow> int \<Rightarrow> int \<Rightarrow> nat \<Rightarrow> nat \<Rightarrow> int \<Rightarrow> int \<Rightarrow> int \<Rightarrow> int \<Rightarrow> int \<times> int" where
  "enclose d ql qh k 0 tlo thi slo shi = (slo, shi)"
| "enclose d ql qh k (Suc n) tlo thi slo shi =
     (let c = int ((2 * k + 1 + d) * (2 * k + 2 + d))
      in enclose d ql qh (Suc k) n
           ((tlo * ql) div (scale * c)) ((thi * qh) div (scale * c) + 1)
           (if even k then slo + tlo else slo - thi)
           (if even k then shi + thi else shi - tlo))"

subsection \<open>The resize listener\<close>

text \<open>
  The quotient \<open>newWidth / newHeight\<close> of two window dimensions, which are
  non-negative integers: a division by zero gives \<open>Infinity\<close>, or \<open>NaN\<close> for
  \<open>0 / 0\<close>.
\<close>

datatype quotient = Finite real | Infinity | NaN

definition js_divide :: "nat \<Rightarrow> nat \<Rightarrow> quotient" where
  "js_divide w h =
     (if h = 0 then (if w = 0 then NaN else Infinity) else Finite (real w / real h))"

text \<open>
  The camera and the renderer, as far as the listener touches them:
  \<open>camera.aspect\<close>, the aspect the projection matrix was last computed from
  (\<open>camera.updateProjectionMatrix()\<close> recomputes the matrix from the current
  fields of the camera), and the size given to \<open>renderer.setSize\<close>.
\<close>

record viewport =
  camera_aspect :: quotient
  projection_aspect :: quotient
  renderer_width :: nat
  renderer_height :: nat

definition updateProjectionMatrix :: "viewport \<Rightarrow> viewport" where
  "updateProjectionMatrix v = v\<lparr> projection_aspect := camera_aspect v \<rparr>"

definition setSize :: "nat \<Rightarrow> nat \<Rightarrow> viewport \<Rightarrow> viewport" where
  "setSize w h v = v\<lparr> renderer_width := w, renderer_height := h \<rparr>"

text \<open>
  The listener; \<open>newWidth\<close> and \<open>newHeight\<close> are \<open>window.innerWidth\<close> and
  \<open>window.innerHeight\<close> at the time of the event.
\<close>

definition resize :: "nat \<Rightarrow> nat \<Rightarrow> viewport \<Rightarrow> viewport" where
  "resize newWidth newHeight v =
     setSize newWidth newHeight
       (updateProjectionMatrix (v\<lparr> camera_aspect := js_divide newWidth newHeight \<rparr>))"

subsection \<open>The coordinates that occur in the table\<close>

text \<open>
  The \<open>x\<close> coordinates, and the \<open>y\<close> coordinates, of all cells of the table that
  \<open>createFishingNet\<close> returns.
\<close>

definition lattice_xs :: "real set" where
  "lattice_xs = set (map cell_x (concat (snd createFishingNet)))"

definition lattice_ys :: "real set" where
  "lattice_ys = set (map cell_y (concat (snd createFishingNet)))"

section \<open>Properties\<close>

subsection \<open>The table of base coordinates\<close>

lemma length_netGeometry: "length netGeometry = gridSize"
  by (simp add: netGeometry_def)

lemma netGeometry_nth:
  assumes "i < gridSize" and "j < gridSize"
  shows "netGeometry ! i ! j =
         \<lparr> cell_x = (real j - real gridSize / 2) * spacing,
           cell_y = (real i - real gridSize / 2) * spacing,
           baseZ = 0 \<rparr>"
  using assms by (simp add: netGeometry_def rowCoords_def)

lemma length_rowCoords: "length (rowCoords i) = gridSize"
  by (simp add: rowCoords_def)

subsection \<open>The position buffer of a new line\<close>

lemma length_setFromPoints: "length (setFromPoints points) = 3 * length points"
  by (induction points) (simp_all add: setFromPoints_def)

lemma setFromPoints_nth:
  assumes "p < length points"
  shows "setFromPoints points ! (3 * p) = vx (points ! p)"
    and "setFromPoints points ! (3 * p + 1) = vy (points ! p)"
    and "setFromPoints points ! (3 * p + 2) = vz (points ! p)"
  using assms
proof (induction points arbitrary: p)
  case Nil
  { case 1 then show ?case by simp }
  { case 2 then show ?case by simp }
  { case 3 then show ?case by simp }
next
  case (Cons a points)
  { case 1 then show ?case using Cons.IH(1)[of "p - 1"]
      by (cases p) (simp_all add: setFromPoints_def) }
  { case 2 then show ?case using Cons.IH(2)[of "p - 1"]
      by (cases p) (simp_all add: setFromPoints_def) }
  { case 3 then show ?case using Cons.IH(3)[of "p - 1"]
      by (cases p) (simp_all add: setFromPoints_def) }
qed

subsection \<open>The update loop over one position buffer\<close>

text \<open>
  The loop writes the indices \<open>i + 2\<close>, \<open>i + 5\<close>, ... and reads only the indices
  \<open>i\<close>, \<open>i + 1\<close>, \<open>i + 3\<close>, \<open>i + 4\<close>, ..., which it never writes: every read sees
  the buffer as it was before the loop.
\<close>

declare updatePositions.simps [simp del]

lemma length_updatePositions: "length (updatePositions t ps i) = length ps"
  by (induction t ps i rule: updatePositions.induct) (subst updatePositions.simps, simp add: Let_def)

lemma stride_next_ge: "i + 3 \<le> k \<and> (k - (i + 3)) mod 3 = 2 \<Longrightarrow> i + 5 \<le> (k::nat)"
proof -
  assume h: "i + 3 \<le> k \<and> (k - (i + 3)) mod 3 = 2"
  obtain d where d: "k = i + 3 + d" using h by (metis le_Suc_ex)
  with h have "d mod 3 = 2" by simp
  then have "2 \<le> d" by (metis mod_less_eq_dividend)
  with d show ?thesis by simp
qed
lemma stride_next_imp: "i + 3 \<le> k \<and> (k - (i + 3)) mod 3 = 2 \<Longrightarrow> i \<le> k \<and> (k - i) mod 3 = (2::nat)"
proof -
  assume h: "i + 3 \<le> k \<and> (k - (i + 3)) mod 3 = 2"
  obtain d where d: "k = i + 3 + d" using h by (metis le_Suc_ex)
  with h have "d mod 3 = 2" by simp
  moreover have "k - i = d + 3" using d by simp
  ultimately show ?thesis using d by simp
qed
lemma stride_not_next: "\<not> (i + 3 \<le> k \<and> (k - (i + 3)) mod 3 = 2) \<Longrightarrow> k \<noteq> i + 2 \<Longrightarrow> \<not> (i \<le> k \<and> (k - i) mod 3 = (2::nat))"
proof
  assume n: "\<not> (i + 3 \<le> k \<and> (k - (i + 3)) mod 3 = 2)" and ne: "k \<noteq> i + 2"
    and h: "i \<le> k \<and> (k - i) mod 3 = 2"
  obtain d where d: "k = i + d" using h by (metis le_Suc_ex)
  with h have m: "d mod 3 = 2" by simp
  from ne d have "d \<noteq> 2" by simp
  moreover from m have "d \<noteq> 0" "d \<noteq> 1" by auto
  ultimately have "3 \<le> d" by simp
  then obtain e where e: "d = e + 3" by (metis add.commute le_Suc_ex)
  with m have "e mod 3 = 2" by simp
  moreover have "k - (i + 3) = e" "i + 3 \<le> k" using d e by simp_all
  ultimately show False using n by simp
qed

lemma updatePositions_nth:
  "k < length ps \<Longrightarrow>
   updatePositions t ps i ! k =
     (if i \<le> k \<and> (k - i) mod 3 = 2 then depth (ps ! (k - 2)) (ps ! (k - 1)) t else ps ! k)"
proof (induction t ps i arbitrary: k rule: updatePositions.induct)
  case (1 t ps i)
  show ?case
  proof (cases "i < length ps")
    case False
    then have "updatePositions t ps i = ps"
      by (subst updatePositions.simps) simp
    with False "1.prems" show ?thesis by simp
  next
    case True
    let ?z = "depth (ps ! i) (ps ! (i + 1)) t"
    let ?ps = "ps[i + 2 := ?z]"
    have step: "updatePositions t ps i = updatePositions t ?ps (i + 3)"
      using True by (subst updatePositions.simps) (simp add: Let_def)
    have k': "k < length ?ps" using "1.prems" by simp
    have IH: "updatePositions t ?ps (i + 3) ! k =
       (if i + 3 \<le> k \<and> (k - (i + 3)) mod 3 = 2
        then depth (?ps ! (k - 2)) (?ps ! (k - 1)) t
        else ?ps ! k)"
      using "1.IH"[OF True refl refl refl k'] .
    show ?thesis
    proof (cases "i + 3 \<le> k \<and> (k - (i + 3)) mod 3 = 2")
      case far: True
      then have "i + 5 \<le> k" by (rule stride_next_ge)
      then have same: "?ps ! (k - 2) = ps ! (k - 2)" "?ps ! (k - 1) = ps ! (k - 1)"
        by simp_all
      from far have here: "i \<le> k \<and> (k - i) mod 3 = 2" by (rule stride_next_imp)
      have "updatePositions t ps i ! k = depth (?ps ! (k - 2)) (?ps ! (k - 1)) t"
        unfolding step IH using far by (rule if_P)
      also have "\<dots> = depth (ps ! (k - 2)) (ps ! (k - 1)) t"
        unfolding same ..
      finally show ?thesis using here by simp
    next
      case near: False
      have upd: "updatePositions t ps i ! k = ?ps ! k"
        unfolding step IH using near by (rule if_not_P)
      show ?thesis
      proof (cases "k = i + 2")
        case True
        then have "?ps ! k = ?z" using "1.prems" by simp
        moreover have "i \<le> k \<and> (k - i) mod 3 = 2" "k - 2 = i" "k - 1 = i + 1"
          using True by simp_all
        ultimately show ?thesis using upd by simp
      next
        case False
        then have "?ps ! k = ps ! k" by simp
        moreover from near False have "\<not> (i \<le> k \<and> (k - i) mod 3 = 2)"
          by (rule stride_not_next)
        ultimately show ?thesis using upd by (simp only: if_False)
      qed
    qed
  qed
qed

subsection \<open>Lines and points under one frame\<close>

lemma point_in_buffer: "p < pointCount l \<Longrightarrow> 3 * p + 2 < length (positions l)"
  unfolding pointCount_def by arith

lemma positions_updateLine_length:
  "length (positions (updateLine t l)) = length (positions l)"
  by (simp add: updateLine_def length_updatePositions)

lemma pointCount_updateLine: "pointCount (updateLine t l) = pointCount l"
  by (simp add: pointCount_def positions_updateLine_length)

lemma positions_updateLine_nth:
  "k < length (positions l) \<Longrightarrow>
   positions (updateLine t l) ! k =
     (if k mod 3 = 2 then depth (positions l ! (k - 2)) (positions l ! (k - 1)) t
      else positions l ! k)"
  by (simp add: updateLine_def updatePositions_nth)

lemma positions_updateLine_other:
  "k < length (positions l) \<Longrightarrow> k mod 3 \<noteq> 2 \<Longrightarrow>
   positions (updateLine t l) ! k = positions l ! k"
  by (simp add: positions_updateLine_nth)

lemma px_updateLine: "p < pointCount l \<Longrightarrow> px (updateLine t l) p = px l p"
proof -
  assume "p < pointCount l"
  then have "3 * p < length (positions l)"
    using point_in_buffer[of p l] by simp
  moreover have "(3 * p) mod 3 \<noteq> 2" by simp
  ultimately show ?thesis unfolding px_def by (rule positions_updateLine_other)
qed

lemma py_updateLine: "p < pointCount l \<Longrightarrow> py (updateLine t l) p = py l p"
proof -
  assume "p < pointCount l"
  then have "3 * p + 1 < length (positions l)"
    using point_in_buffer[of p l] by simp
  moreover have "(3 * p + 1) mod 3 \<noteq> 2" by presburger
  ultimately show ?thesis unfolding py_def by (rule positions_updateLine_other)
qed

lemma pz_updateLine:
  "p < pointCount l \<Longrightarrow> pz (updateLine t l) p = depth (px l p) (py l p) t"
proof -
  assume "p < pointCount l"
  then have b: "3 * p + 2 < length (positions l)" by (rule point_in_buffer)
  have m: "(3 * p + 2) mod 3 = 2" by presburger
  have d: "3 * p + 2 - 2 = 3 * p" "3 * p + 2 - 1 = 3 * p + 1" by simp_all
  show ?thesis
    unfolding pz_def px_def py_def positions_updateLine_nth[OF b]
    by (simp only: m d refl if_True)
qed

subsection \<open>One frame and runs of frames\<close>

lemma time_animate: "time (animate r s) = time s + of_int \<lfloor>r * 20\<rfloor> * 0.001"
  by (simp add: animate_def Let_def)

lemma children_animate:
  "children (fishingNet (animate r s)) =
     map (updateLine (time (animate r s))) (children (fishingNet s))"
  by (simp add: animate_def Let_def)

lemma length_children_animate:
  "length (children (fishingNet (animate r s))) = length (children (fishingNet s))"
  by (simp add: children_animate)

lemma length_children_run:
  "length (children (fishingNet (run rs s))) = length (children (fishingNet s))"
  by (induction rs arbitrary: s) (simp_all add: length_children_animate)

lemma run_append: "run (rs @ rs') s = run rs' (run rs s)"
  by (induction rs arbitrary: s) simp_all

lemma run_snoc: "run (rs @ [r]) s = animate r (run rs s)"
  by (simp add: run_append)

lemma positions_run_length:
  "k < length (children (fishingNet s)) \<Longrightarrow>
   length (positions (children (fishingNet (run rs s)) ! k)) =
   length (positions (children (fishingNet s) ! k))"
proof (induction rs arbitrary: s)
  case Nil
  then show ?case by simp
next
  case (Cons r rs)
  have "k < length (children (fishingNet (animate r s)))"
    using Cons.prems by (simp add: length_children_animate)
  from Cons.IH[OF this] show ?case
    using Cons.prems by (simp add: children_animate positions_updateLine_length)
qed

lemma pointCount_run:
  "k < length (children (fishingNet s)) \<Longrightarrow>
   pointCount (children (fishingNet (run rs s)) ! k) = pointCount (children (fishingNet s) ! k)"
  by (simp add: pointCount_def positions_run_length)

lemma positions_run_nth:
  "k < length (children (fishingNet s)) \<Longrightarrow>
   i < length (positions (children (fishingNet s) ! k)) \<Longrightarrow> i mod 3 \<noteq> 2 \<Longrightarrow>
   positions (children (fishingNet (run rs s)) ! k) ! i = positions (children (fishingNet s) ! k) ! i"
proof (induction rs arbitrary: s)
  case Nil
  then show ?case by simp
next
  case (Cons r rs)
  let ?s = "animate r s"
  have k: "k < length (children (fishingNet ?s))"
    using Cons.prems by (simp add: length_children_animate)
  have i: "i < length (positions (children (fishingNet ?s) ! k))"
    using Cons.prems by (simp add: children_animate positions_updateLine_length)
  have "positions (children (fishingNet (run rs ?s)) ! k) ! i =
        positions (children (fishingNet ?s) ! k) ! i"
    using Cons.IH[OF k i Cons.prems(3)] .
  also have "\<dots> = positions (children (fishingNet s) ! k) ! i"
    using Cons.prems by (simp add: children_animate positions_updateLine_nth)
  finally show ?case by simp
qed

lemma px_run:
  assumes "k < length (children (fishingNet s))" and "p < pointCount (children (fishingNet s) ! k)"
  shows "px (children (fishingNet (run rs s)) ! k) p = px (children (fishingNet s) ! k) p"
proof -
  have "3 * p < length (positions (children (fishingNet s) ! k))"
    using point_in_buffer[OF assms(2)] by simp
  moreover have "(3 * p) mod 3 \<noteq> 2" by simp
  ultimately show ?thesis unfolding px_def using assms(1) by (rule positions_run_nth[rotated])
qed

lemma py_run:
  assumes "k < length (children (fishingNet s))" and "p < pointCount (children (fishingNet s) ! k)"
  shows "py (children (fishingNet (run rs s)) ! k) p = py (children (fishingNet s) ! k) p"
proof -
  have "3 * p + 1 < length (positions (children (fishingNet s) ! k))"
    using point_in_buffer[OF assms(2)] by simp
  moreover have "(3 * p + 1) mod 3 \<noteq> 2" by presburger
  ultimately show ?thesis unfolding py_def using assms(1) by (rule positions_run_nth[rotated])
qed

lemma pz_animate:
  assumes "k < length (children (fishingNet s))" and "p < pointCount (children (fishingNet s) ! k)"
  shows "pz (children (fishingNet (animate r s)) ! k) p =
         depth (px (children (fishingNet s) ! k) p) (py (children (fishingNet s) ! k) p)
               (time (animate r s))"
  using assms by (simp add: children_animate pz_updateLine)

lemma pz_run:
  assumes "rs \<noteq> []"
    and "k < length (children (fishingNet s))" and "p < pointCount (children (fishingNet s) ! k)"
  shows "pz (children (fishingNet (run rs s)) ! k) p =
         depth (px (children (fishingNet s) ! k) p) (py (children (fishingNet s) ! k) p)
               (time (run rs s))"
proof -
  from assms(1) obtain rs' r where rs: "rs = rs' @ [r]"
    by (metis rev_exhaust)
  let ?s = "run rs' s"
  have k: "k < length (children (fishingNet ?s))"
    using assms(2) by (simp add: length_children_run)
  have p: "p < pointCount (children (fishingNet ?s) ! k)"
    using assms(2,3) by (simp add: pointCount_run)
  have "pz (children (fishingNet (run rs s)) ! k) p =
        depth (px (children (fishingNet ?s) ! k) p) (py (children (fishingNet ?s) ! k) p)
              (time (run rs s))"
    unfolding rs run_snoc using k p by (rule pz_animate)
  then show ?thesis
    using assms(2,3) by (simp add: px_run py_run)
qed

subsection \<open>The new net\<close>

lemma children_createFishingNet:
  "children (fst createFishingNet) =
     map (\<lambda>i. newLine (horizontalPoints i)) [0..<gridSize]
     @ map (\<lambda>j. newLine (verticalPoints j)) [0..<gridSize]"
  by (simp add: createFishingNet_def)

lemma length_children_createFishingNet:
  "length (children (fst createFishingNet)) = 2 * gridSize"
  by (simp add: children_createFishingNet)

lemma horizontal_child:
  "i < gridSize \<Longrightarrow> children (fst createFishingNet) ! i = newLine (horizontalPoints i)"
  by (simp add: children_createFishingNet nth_append)

lemma vertical_child:
  "j < gridSize \<Longrightarrow> children (fst createFishingNet) ! (gridSize + j) = newLine (verticalPoints j)"
  by (simp add: children_createFishingNet nth_append)

lemma length_horizontalPoints: "length (horizontalPoints i) = gridSize"
  by (simp add: horizontalPoints_def)

lemma length_verticalPoints: "length (verticalPoints j) = gridSize"
  by (simp add: verticalPoints_def)

lemma pointCount_newLine: "pointCount (newLine points) = length points"
  by (simp add: pointCount_def newLine_def length_setFromPoints)

lemma length_positions_newLine: "length (positions (newLine points)) = 3 * length points"
  by (simp add: newLine_def length_setFromPoints)

lemma px_newLine: "p < length points \<Longrightarrow> px (newLine points) p = vx (points ! p)"
  by (simp add: px_def newLine_def setFromPoints_nth)

lemma py_newLine: "p < length points \<Longrightarrow> py (newLine points) p = vy (points ! p)"
  using setFromPoints_nth(2)[of p points] by (simp add: py_def newLine_def)

lemma pz_newLine: "p < length points \<Longrightarrow> pz (newLine points) p = vz (points ! p)"
  using setFromPoints_nth(3)[of p points] by (simp add: pz_def newLine_def)

lemma horizontalPoints_nth:
  "j < gridSize \<Longrightarrow>
   horizontalPoints i ! j =
     \<lparr> vx = cell_x (netGeometry ! i ! j), vy = cell_y (netGeometry ! i ! j),
       vz = sin (real j * 0.3 + real i * 0.3) * 1
            + cos ((cell_x (netGeometry ! i ! j) + cell_y (netGeometry ! i ! j)) * 0.2) * 0.5 \<rparr>"
  by (simp add: horizontalPoints_def Let_def)

lemma verticalPoints_nth:
  "i < gridSize \<Longrightarrow>
   verticalPoints j ! i =
     \<lparr> vx = cell_x (netGeometry ! i ! j), vy = cell_y (netGeometry ! i ! j),
       vz = cos (real j * 0.3 + real i * 0.3) * 1
            + sin ((cell_x (netGeometry ! i ! j) + cell_y (netGeometry ! i ! j)) * 0.2) * 0.5 \<rparr>"
  by (simp add: verticalPoints_def Let_def)

subsection \<open>The points of the new net\<close>

lemma children_initial: "children (fishingNet initial) = children (fst createFishingNet)"
  by (simp add: initial_def)

lemma horizontal_point:
  assumes "i < gridSize" and "j < gridSize"
  shows "px (children (fst createFishingNet) ! i) j = cell_x (netGeometry ! i ! j)"
    and "py (children (fst createFishingNet) ! i) j = cell_y (netGeometry ! i ! j)"
    and "pz (children (fst createFishingNet) ! i) j =
           sin (real j * 0.3 + real i * 0.3) * 1
           + cos ((cell_x (netGeometry ! i ! j) + cell_y (netGeometry ! i ! j)) * 0.2) * 0.5"
  using assms
  by (simp_all add: horizontal_child px_newLine py_newLine pz_newLine
      length_horizontalPoints horizontalPoints_nth)

lemma vertical_point:
  assumes "i < gridSize" and "j < gridSize"
  shows "px (children (fst createFishingNet) ! (gridSize + j)) i = cell_x (netGeometry ! i ! j)"
    and "py (children (fst createFishingNet) ! (gridSize + j)) i = cell_y (netGeometry ! i ! j)"
    and "pz (children (fst createFishingNet) ! (gridSize + j)) i =
           cos (real j * 0.3 + real i * 0.3) * 1
           + sin ((cell_x (netGeometry ! i ! j) + cell_y (netGeometry ! i ! j)) * 0.2) * 0.5"
  using assms
  by (simp_all add: vertical_child px_newLine py_newLine pz_newLine
      length_verticalPoints verticalPoints_nth)

lemma pointCount_child:
  "k < 2 * gridSize \<Longrightarrow> pointCount (children (fst createFishingNet) ! k) = gridSize"
proof -
  assume "k < 2 * gridSize"
  then have "children (fst createFishingNet) ! k \<in> set (children (fst createFishingNet))"
    by (simp add: length_children_createFishingNet)
  then obtain m where
    "children (fst createFishingNet) ! k = newLine (horizontalPoints m)
     \<or> children (fst createFishingNet) ! k = newLine (verticalPoints m)"
    by (auto simp: children_createFishingNet)
  then show ?thesis
    by (auto simp: pointCount_newLine length_horizontalPoints length_verticalPoints)
qed

lemma length_children_initial: "length (children (fishingNet initial)) = 2 * gridSize"
  by (simp add: children_initial length_children_createFishingNet)

lemma pointCount_initial:
  "k < 2 * gridSize \<Longrightarrow> pointCount (children (fishingNet initial) ! k) = gridSize"
  by (simp add: children_initial pointCount_child)

lemma horizontal_xy:
  assumes "i < gridSize" and "j < gridSize"
  shows "px (children (fishingNet initial) ! i) j = real j - 25 / 2"
    and "py (children (fishingNet initial) ! i) j = real i - 25 / 2"
  using assms
  by (simp_all add: children_initial horizontal_point netGeometry_nth)
     (simp_all add: gridSize_def spacing_def)

lemma vertical_xy:
  assumes "i < gridSize" and "j < gridSize"
  shows "px (children (fishingNet initial) ! (gridSize + j)) i = real j - 25 / 2"
    and "py (children (fishingNet initial) ! (gridSize + j)) i = real i - 25 / 2"
  using assms
  by (simp_all add: children_initial vertical_point netGeometry_nth)
     (simp_all add: gridSize_def spacing_def)

subsection \<open>The coordinates that occur\<close>

lemma lattice_xs_eq: "lattice_xs = (\<lambda>j. real j - 25 / 2) ` {0..<25}"
  by (auto simp: lattice_xs_def createFishingNet_def netGeometry_def rowCoords_def
      gridSize_def spacing_def image_iff)

lemma lattice_ys_eq: "lattice_ys = (\<lambda>i. real i - 25 / 2) ` {0..<25}"
  by (auto simp: lattice_ys_def createFishingNet_def netGeometry_def rowCoords_def
      gridSize_def spacing_def image_iff)

subsection \<open>The time step\<close>

lemma step_bounds:
  assumes "0 \<le> r" and "r < 1"
  shows "0 \<le> \<lfloor>r * 20\<rfloor>" and "\<lfloor>r * 20\<rfloor> \<le> 19"
proof -
  from assms(1) show "0 \<le> \<lfloor>r * 20\<rfloor>" by simp
  from assms(2) have "r * 20 < 20" by simp
  then have "\<lfloor>r * 20\<rfloor> < 20" by (simp add: floor_less_iff)
  then show "\<lfloor>r * 20\<rfloor> \<le> 19" by simp
qed

lemma step_range:
  assumes "0 \<le> r" and "r < 1"
  shows "0 \<le> of_int \<lfloor>r * 20\<rfloor> * (0.001::real)"
    and "of_int \<lfloor>r * 20\<rfloor> * (0.001::real) \<le> 0.019"
proof -
  from step_bounds[OF assms] have "(0::real) \<le> of_int \<lfloor>r * 20\<rfloor>" "of_int \<lfloor>r * 20\<rfloor> \<le> (19::real)"
    by simp_all
  then show "0 \<le> of_int \<lfloor>r * 20\<rfloor> * (0.001::real)"
    and "of_int \<lfloor>r * 20\<rfloor> * (0.001::real) \<le> 0.019"
    by simp_all
qed

lemma time_animate_mono: "0 \<le> r \<Longrightarrow> r < 1 \<Longrightarrow> time s \<le> time (animate r s)"
  using step_range(1)[of r] by (simp add: time_animate)

lemma time_run_mono:
  "\<forall>r \<in> set rs. 0 \<le> r \<and> r < 1 \<Longrightarrow> time s \<le> time (run rs s)"
proof (induction rs arbitrary: s)
  case Nil
  then show ?case by simp
next
  case (Cons r rs)
  have "time s \<le> time (animate r s)"
    using Cons.prems by (simp add: time_animate_mono)
  also have "\<dots> \<le> time (run rs (animate r s))"
    using Cons.prems by (intro Cons.IH) simp
  finally show ?case by simp
qed

lemma time_run_take_mono:
  assumes "\<forall>r \<in> set rs. 0 \<le> r \<and> r < 1" and "m \<le> n"
  shows "time (run (take m rs) s) \<le> time (run (take n rs) s)"
proof -
  have split: "take n rs = take m rs @ drop m (take n rs)"
    using assms(2) by (metis append_take_drop_id min.absorb1 take_take)
  have "\<forall>r \<in> set (drop m (take n rs)). 0 \<le> r \<and> r < 1"
    using assms(1) by (meson in_set_dropD in_set_takeD)
  then have "time (run (take m rs) s) \<le> time (run (drop m (take n rs)) (run (take m rs) s))"
    by (rule time_run_mono)
  then show ?thesis
    by (subst split) (simp add: run_append)
qed

subsection \<open>The depth formula\<close>

lemma depth_sum: "x + y = x' + y' \<Longrightarrow> depth x y t = depth x' y' t"
proof -
  assume e: "x + y = x' + y'"
  have a: "x * 0.3 + y * 0.3 = (x + y) * 0.3"
    and b: "x' * 0.3 + y' * 0.3 = (x' + y') * 0.3"
    by (simp_all only: distrib_right)
  show ?thesis unfolding depth_def a b e by (rule refl)
qed

text \<open>
  In the new net the two polylines through a crossing disagree about its depth:
  at the corner cell \<open>(0, 0)\<close> the horizontal line has \<open>cos 5 * 0.5\<close> and the
  vertical line has \<open>1 - sin 5 * 0.5\<close>.
\<close>

lemma construction_crossing_differs:
  "pz (children (fishingNet initial) ! 0) 0 \<noteq> pz (children (fishingNet initial) ! gridSize) 0"
proof
  assume eq: "pz (children (fishingNet initial) ! 0) 0 = pz (children (fishingNet initial) ! gridSize) 0"
  have g: "0 < gridSize" by (simp add: gridSize_def)
  have c: "cell_x (netGeometry ! 0 ! 0) = - 12.5" "cell_y (netGeometry ! 0 ! 0) = - 12.5"
    by (simp_all add: netGeometry_nth[OF g g] gridSize_def spacing_def)
  have h: "pz (children (fishingNet initial) ! 0) 0 = cos 5 * 0.5"
    using horizontal_point(3)[OF g g] by (simp add: children_initial c)
  have v: "pz (children (fishingNet initial) ! gridSize) 0 = 1 - sin 5 * 0.5"
    using vertical_point(3)[OF g g] by (simp add: children_initial c)
  from eq h v have sum: "cos (5::real) + sin 5 = 2" by simp
  have "cos (5::real) \<le> 1" "sin (5::real) \<le> 1" by simp_all
  with sum have "cos (5::real) = 1" "sin (5::real) = 1" by linarith+
  moreover have "(sin (5::real))\<^sup>2 + (cos 5)\<^sup>2 = 1" by (rule sin_cos_squared_add)
  ultimately show False by simp
qed

subsection \<open>Rounding to binary64\<close>

lemma round_even_near: "\<bar>y - of_int m\<bar> < 1 / 2 \<Longrightarrow> round_even y = m"
proof -
  assume a: "\<bar>y - of_int m\<bar> < 1 / 2"
  show ?thesis
  proof (cases "of_int m \<le> y")
    case True
    with a have f: "\<lfloor>y\<rfloor> = m" by (intro floor_unique) linarith+
    with a True show ?thesis by (simp add: round_even_def Let_def) 
  next
    case False
    with a have "of_int m - 1 \<le> y" "y < of_int m" by linarith+
    then have f: "\<lfloor>y\<rfloor> = m - 1" by (intro floor_unique) simp_all
    with a False show ?thesis by (simp add: round_even_def Let_def)
  qed
qed

lemma round_even_tie:
  "y = of_int f + 1 / 2 \<Longrightarrow> round_even y = (if even f then f else f + 1)"
proof -
  assume y: "y = of_int f + 1 / 2"
  then have "\<lfloor>y\<rfloor> = f" by (simp add: floor_eq_iff)
  with y show ?thesis by (simp add: round_even_def Let_def)
qed

lemma pow2_powr: "pow2 k = 2 powr of_int k"
  by (simp add: pow2_def powr_int)

lemma pow2_pos: "0 < pow2 k"
  by (simp add: pow2_powr)

lemma exponent_eq:
  assumes "pow2 k \<le> \<bar>x\<bar>" and "\<bar>x\<bar> < pow2 (k + 1)" and "- 1022 \<le> k"
  shows "exponent x = k"
proof -
  note assms = assms[unfolded pow2_powr]
  have pos: "0 < \<bar>x\<bar>" using assms(1) by (smt (verit) powr_gt_zero)
  have "of_int k \<le> log 2 \<bar>x\<bar>"
    using assms(1) pos by (simp add: le_log_iff)
  moreover have "log 2 \<bar>x\<bar> < of_int (k + 1)"
    using assms(2) pos by (simp add: log_less_iff)
  ultimately have "\<lfloor>log 2 \<bar>x\<bar>\<rfloor> = k" by (simp add: floor_eq_iff)
  with assms(3) show ?thesis by (simp add: exponent_def)
qed

lemma rnd64_near:
  assumes "lo = pow2 k" and "hi = pow2 (k + 1)" and "u = pow2 (k - 52)"
    and "- 1022 \<le> k" and "lo \<le> \<bar>x\<bar>" and "\<bar>x\<bar> < hi"
    and "\<bar>x / u - of_int m\<bar> < 1 / 2"
  shows "rnd64 x = u * of_int m"
proof -
  have e: "exponent x = k" using assms by (intro exponent_eq) (simp_all add: pow2_def)
  have "x \<noteq> 0" using assms(1,5) pow2_pos[of k] by auto
  then show ?thesis
    using assms(3,7) by (simp add: rnd64_def e Let_def round_even_near)
qed

lemma rnd64_tie:
  assumes "lo = pow2 k" and "hi = pow2 (k + 1)" and "u = pow2 (k - 52)"
    and "- 1022 \<le> k" and "lo \<le> \<bar>x\<bar>" and "\<bar>x\<bar> < hi"
    and "x / u = of_int f + 1 / 2"
  shows "rnd64 x = u * of_int (if even f then f else f + 1)"
proof -
  have e: "exponent x = k" using assms by (intro exponent_eq) (simp_all add: pow2_def)
  have "x \<noteq> 0" using assms(1,5) pow2_pos[of k] by auto
  then show ?thesis
    using assms(3,7) by (simp add: rnd64_def e Let_def round_even_tie)
qed

lemma rnd64_near_minus:
  assumes "lo = pow2 k" and "hi = pow2 (k + 1)" and "u = pow2 (k - 52)"
    and "- 1022 \<le> k" and "lo \<le> \<bar>x\<bar>" and "\<bar>x\<bar> < hi"
    and "\<bar>x / u - of_int m\<bar> < 1 / 2"
  shows "rnd64 (- x) = - (u * of_int m)"
proof -
  have "\<bar>(- x) / u - of_int (- m)\<bar> = \<bar>x / u - of_int m\<bar>"
    by (simp add: abs_minus_commute)
  with assms(7) have c: "\<bar>(- x) / u - of_int (- m)\<bar> < 1 / 2" by simp
  have "rnd64 (- x) = u * of_int (- m)"
    using assms(1-4) _ _ c by (rule rnd64_near) (use assms(5,6) in simp_all)
  then show ?thesis by simp
qed

subsection \<open>Partial sums of the sine and cosine series\<close>

lemma fact_step: "(fact (Suc (Suc n)) :: real) = real (n + 1) * real (n + 2) * fact n"
  by (simp add: algebra_simps)

lemma tterm_sin: "tterm (Suc 0) x (x * x) k = x ^ (2 * k + 1) / fact (2 * k + 1)"
proof (induction k)
  case 0
  show ?case by simp
next
  case (Suc k)
  have i: "2 * Suc k + 1 = Suc (Suc (2 * k + 1))" by simp
  have "tterm (Suc 0) x (x * x) (Suc k) =
        x ^ (2 * k + 1) / fact (2 * k + 1) * (x * x) / (real (2 * k + 1 + 1) * real (2 * k + 1 + 2))"
    by (simp add: Suc.IH add.commute add.left_commute)
  also have "\<dots> = x ^ Suc (Suc (2 * k + 1)) / fact (Suc (Suc (2 * k + 1)))"
    unfolding fact_step by (simp add: field_simps)
  finally show ?case unfolding i .
qed

lemma tterm_cos: "tterm 0 1 (x * x) k = x ^ (2 * k) / fact (2 * k)"
proof (induction k)
  case 0
  show ?case by simp
next
  case (Suc k)
  have i: "2 * Suc k = Suc (Suc (2 * k))" by simp
  have "tterm 0 1 (x * x) (Suc k) =
        x ^ (2 * k) / fact (2 * k) * (x * x) / (real (2 * k + 1) * real (2 * k + 2))"
    by (simp add: Suc.IH)
  also have "\<dots> = x ^ Suc (Suc (2 * k)) / fact (Suc (Suc (2 * k)))"
    unfolding fact_step by (simp add: field_simps)
  finally show ?case unfolding i .
qed

lemma psum_Suc: "psum d t0 q (Suc K) = psum d t0 q K + (- 1) ^ K * tterm d t0 q K"
  by (simp add: psum_def)

lemma psum_sin: "psum (Suc 0) x (x * x) K = (\<Sum>m<2 * K. sin_coeff m * x ^ m)"
proof (induction K)
  case 0
  then show ?case by (simp add: psum_def)
next
  case (Suc K)
  have c0: "sin_coeff (2 * K) = 0" by (simp add: sin_coeff_def)
  have c1: "sin_coeff (Suc (2 * K)) = (- 1) ^ K / fact (2 * K + 1)"
    by (simp add: sin_coeff_def)
  have "(\<Sum>m<2 * Suc K. sin_coeff m * x ^ m) =
        (\<Sum>m<2 * K. sin_coeff m * x ^ m) + sin_coeff (2 * K) * x ^ (2 * K)
        + sin_coeff (Suc (2 * K)) * x ^ Suc (2 * K)"
    by simp
  also have "\<dots> = psum (Suc 0) x (x * x) K + (- 1) ^ K * tterm (Suc 0) x (x * x) K"
    unfolding c0 c1 Suc.IH tterm_sin by simp
  finally show ?case unfolding psum_Suc by simp
qed

lemma psum_cos: "psum 0 1 (x * x) K = (\<Sum>m<2 * K. cos_coeff m * x ^ m)"
proof (induction K)
  case 0
  then show ?case by (simp add: psum_def)
next
  case (Suc K)
  have c0: "cos_coeff (2 * K) = (- 1) ^ K / fact (2 * K)" by (simp add: cos_coeff_def)
  have c1: "cos_coeff (Suc (2 * K)) = 0"
    by (simp add: cos_coeff_def)
  have "(\<Sum>m<2 * Suc K. cos_coeff m * x ^ m) =
        (\<Sum>m<2 * K. cos_coeff m * x ^ m) + cos_coeff (2 * K) * x ^ (2 * K)
        + cos_coeff (Suc (2 * K)) * x ^ Suc (2 * K)"
    by simp
  also have "\<dots> = psum 0 1 (x * x) K + (- 1) ^ K * tterm 0 1 (x * x) K"
    unfolding c0 c1 Suc.IH tterm_cos by simp
  finally show ?case unfolding psum_Suc by simp
qed

lemma sin_psum_bound: "\<bar>sin x - psum (Suc 0) x (x * x) K\<bar> \<le> \<bar>x\<bar> ^ (2 * K) / fact (2 * K)"
  unfolding psum_sin using Maclaurin_sin_bound[of x "2 * K"]
  by (simp add: divide_inverse mult.commute)

lemma cos_psum_bound:
  assumes "0 < x" and "0 < K"
  shows "\<bar>cos x - psum 0 1 (x * x) K\<bar> \<le> \<bar>x\<bar> ^ (2 * K) / fact (2 * K)"
proof -
  from Maclaurin_cos_expansion2[of x "2 * K"] assms obtain t where
    t: "cos x = (\<Sum>m<2 * K. cos_coeff m * x ^ m)
              + cos (t + 1 / 2 * real (2 * K) * pi) / fact (2 * K) * x ^ (2 * K)"
    by auto
  have "\<bar>cos x - psum 0 1 (x * x) K\<bar> =
        \<bar>cos (t + 1 / 2 * real (2 * K) * pi)\<bar> * (\<bar>x\<bar> ^ (2 * K) / fact (2 * K))"
    unfolding psum_cos t by (simp add: abs_mult power_abs)
  also have "\<dots> \<le> 1 * (\<bar>x\<bar> ^ (2 * K) / fact (2 * K))"
    by (intro mult_right_mono) simp_all
  finally show ?thesis by simp
qed

lemma div_bounds:
  assumes "0 < (b::int)"
  shows "of_int (a div b) \<le> (of_int a / of_int b :: real)"
    and "(of_int a / of_int b :: real) < of_int (a div b + 1)"
proof -
  have f: "a div b = \<lfloor>of_int a / of_int b :: real\<rfloor>"
    by (simp add: floor_divide_of_int_eq)
  show "of_int (a div b) \<le> (of_int a / of_int b :: real)" unfolding f by simp
  show "(of_int a / of_int b :: real) < of_int (a div b + 1)" unfolding f by simp
qed

subsection \<open>The enclosure is sound\<close>

lemma scaled_step:
  fixes S c T q :: real
  assumes "0 < S" and "0 < c"
  shows "(T * q / c) * S = (T * S) * (q * S) / (S * c)"
  using assms by (simp add: field_simps)

lemma enclose_sound:
  assumes "enclose d ql qh k n tlo thi slo shi = (slo', shi')"
    and "0 \<le> tlo" and "of_int tlo \<le> tterm d t0 q k * of_int scale"
    and "tterm d t0 q k * of_int scale \<le> of_int thi"
    and "0 \<le> ql" and "of_int ql \<le> q * of_int scale" and "q * of_int scale \<le> of_int qh"
    and "of_int slo \<le> psum d t0 q k * of_int scale"
    and "psum d t0 q k * of_int scale \<le> of_int shi"
  shows "of_int slo' \<le> psum d t0 q (k + n) * of_int scale
       \<and> psum d t0 q (k + n) * of_int scale \<le> of_int shi'"
  using assms
proof (induction n arbitrary: k tlo thi slo shi)
  case 0
  then show ?case by simp
next
  case (Suc n)
  let ?S = "of_int scale :: real"
  let ?T = "tterm d t0 q k"
  let ?c = "int ((2 * k + 1 + d) * (2 * k + 2 + d))"
  let ?tlo = "(tlo * ql) div (scale * ?c)"
  let ?thi = "(thi * qh) div (scale * ?c) + 1"
  let ?slo = "if even k then slo + tlo else slo - thi"
  let ?shi = "if even k then shi + thi else shi - tlo"
  have S: "0 < ?S" by (simp add: scale_def)
  have "0 < (2 * k + 1 + d) * (2 * k + 2 + d)" by simp
  then have c: "0 < ?c" by (simp only: of_nat_0_less_iff)
  then have cr: "0 < (of_int ?c :: real)" by (simp only: of_int_0_less_iff)
  have Sc: "0 < scale * ?c" using c by (simp add: scale_def)
  have run: "enclose d ql qh (Suc k) n ?tlo ?thi ?slo ?shi = (slo', shi')"
    using Suc.prems(1) by (simp add: Let_def)
  have T0: "0 \<le> ?T * ?S" using Suc.prems(2,3) by linarith
  have q0: "0 \<le> q * ?S" using Suc.prems(5,6) by linarith
  have den: "0 \<le> ?S * of_int ?c" using S cr by simp
  have "(of_int ?c :: real) = real (2 * k + 1 + d) * real (2 * k + 2 + d)"
    by (simp only: of_int_of_nat_eq of_nat_mult of_int_mult)
  then have "tterm d t0 q (Suc k) = ?T * q / of_int ?c"
    by (simp only: tterm.simps)
  then have next_term: "tterm d t0 q (Suc k) * ?S = (?T * ?S) * (q * ?S) / (?S * of_int ?c)"
    using scaled_step[OF S cr, of ?T q] by (simp only:)
  have lo: "of_int ?tlo \<le> tterm d t0 q (Suc k) * ?S"
  proof -
    have "of_int ?tlo \<le> (of_int (tlo * ql) / of_int (scale * ?c) :: real)"
      using Sc by (rule div_bounds(1))
    also have "\<dots> = of_int tlo * of_int ql / (?S * of_int ?c)" by simp
    also have "\<dots> \<le> (?T * ?S) * (q * ?S) / (?S * of_int ?c)"
      using Suc.prems(2,3,5,6) den by (intro divide_right_mono mult_mono) simp_all
    finally show ?thesis unfolding next_term .
  qed
  have hi: "tterm d t0 q (Suc k) * ?S \<le> of_int ?thi"
  proof -
    have th0: "0 \<le> (of_int thi :: real)" using T0 Suc.prems(4) by linarith
    have "(?T * ?S) * (q * ?S) / (?S * of_int ?c) \<le> of_int thi * of_int qh / (?S * of_int ?c)"
      using Suc.prems(4,7) T0 q0 th0 den by (intro divide_right_mono mult_mono) simp_all
    also have "\<dots> = (of_int (thi * qh) / of_int (scale * ?c) :: real)" by simp
    also have "\<dots> \<le> of_int ?thi"
      using div_bounds(2)[OF Sc, of "thi * qh"] by simp
    finally show ?thesis unfolding next_term .
  qed
  have tl0: "0 \<le> ?tlo"
    using Suc.prems(2,5) Sc by (simp add: pos_imp_zdiv_nonneg_iff)
  have slo_next: "of_int ?slo \<le> psum d t0 q (Suc k) * ?S"
    using Suc.prems(3,4,8) by (cases "even k") (simp_all add: psum_Suc algebra_simps)
  have shi_next: "psum d t0 q (Suc k) * ?S \<le> of_int ?shi"
    using Suc.prems(3,4,9) by (cases "even k") (simp_all add: psum_Suc algebra_simps)
  from Suc.IH[OF run tl0 lo hi Suc.prems(5,6,7) slo_next shi_next] show ?case by simp
qed

subsection \<open>Rounding an enclosed sine or cosine\<close>

text \<open>
  With \<open>15\<close> terms the remainder of either series is below \<open>2 ^ 10 / 2 ^ 80\<close> for
  every argument up to \<open>2.2\<close>. When the enclosure, widened by this bound, lies
  within one rounding interval of binary64, the rounded value is known.
\<close>

lemma remainder_small:
  fixes x :: real
  assumes "\<bar>x\<bar> \<le> 11 / 5"
  shows "\<bar>x\<bar> ^ (2 * 15) / fact (2 * 15) \<le> 1024 / of_int scale"
proof -
  have "\<bar>x\<bar> ^ (2 * 15) \<le> (11 / 5) ^ (2 * 15)"
    using assms by (intro power_mono) simp_all
  then have "\<bar>x\<bar> ^ (2 * 15) / fact (2 * 15) \<le> (11 / 5) ^ (2 * 15) / fact (2 * 15)"
    by (intro divide_right_mono) simp_all
  also have "\<dots> \<le> 1024 / of_int scale"
    by (simp add: scale_def fact_numeral power_divide)
  finally show ?thesis .
qed

lemma rounding_cell:
  fixes v u :: real
  assumes "0 < u" and "L \<le> v" and "v \<le> H"
    and "(of_int m - 1 / 2) * u < L" and "H < (of_int m + 1 / 2) * u"
  shows "\<bar>v / u - of_int m\<bar> < 1 / 2"
proof -
  have "(of_int m - 1 / 2) * u < v" "v < (of_int m + 1 / 2) * u"
    using assms by linarith+
  then have "of_int m - 1 / 2 < v / u" "v / u < of_int m + 1 / 2"
    using assms(1) by (simp_all add: pos_less_divide_eq pos_divide_less_eq)
  then show ?thesis by linarith
qed

lemma series_cell:
  assumes enc: "enclose d ql qh 0 15 t t 0 0 = (slo, shi)"
    and rem: "\<bar>v - psum d t0 q 15\<bar> \<le> 1024 / of_int scale"
    and t: "0 \<le> t" "of_int t = t0 * of_int scale"
    and q: "0 \<le> ql" "of_int ql \<le> q * of_int scale" "q * of_int scale \<le> of_int qh"
    and k: "lo = pow2 k" "u = pow2 (k - 52)"
    and range: "lo \<le> (of_int slo - 1024) / of_int scale" "(of_int shi + 1024) / of_int scale < hi"
    and m: "(of_int m - 1 / 2) * u < (of_int slo - 1024) / of_int scale"
           "(of_int shi + 1024) / of_int scale < (of_int m + 1 / 2) * u"
  shows "lo \<le> \<bar>v\<bar> \<and> \<bar>v\<bar> < hi \<and> \<bar>v / u - of_int m\<bar> < 1 / 2"
proof -
  let ?S = "of_int scale :: real"
  have S: "0 < ?S" by (simp add: scale_def)
  have "of_int slo \<le> psum d t0 q (0 + 15) * ?S \<and> psum d t0 q (0 + 15) * ?S \<le> of_int shi"
    using enc t q by (intro enclose_sound[where tlo = t and thi = t and slo = 0 and shi = 0])
      (simp_all add: psum_def)
  then have p: "of_int slo / ?S \<le> psum d t0 q 15" "psum d t0 q 15 \<le> of_int shi / ?S"
    using S by (simp_all add: pos_divide_le_eq pos_le_divide_eq)
  have "of_int slo / ?S - 1024 / ?S \<le> v" "v \<le> of_int shi / ?S + 1024 / ?S"
    using p rem by linarith+
  then have L: "(of_int slo - 1024) / ?S \<le> v" and H: "v \<le> (of_int shi + 1024) / ?S"
    by (simp_all only: diff_divide_distrib add_divide_distrib)
  have lo0: "0 < lo" unfolding k(1) by (rule pow2_pos)
  have v: "\<bar>v\<bar> = v" using L lo0 range(1) by linarith
  have u: "0 < u" unfolding k(2) by (rule pow2_pos)
  have "lo \<le> \<bar>v\<bar>" unfolding v using L range(1) by linarith
  moreover have "\<bar>v\<bar> < hi" unfolding v using H range(2) by linarith
  moreover have "\<bar>v / u - of_int m\<bar> < 1 / 2" using u L H m by (rule rounding_cell)
  ultimately show ?thesis by blast
qed

lemma sin_remainder:
  assumes "\<bar>x\<bar> \<le> 11 / 5"
  shows "\<bar>sin x - psum (Suc 0) x (x * x) 15\<bar> \<le> 1024 / of_int scale"
proof -
  have "\<bar>sin x - psum (Suc 0) x (x * x) 15\<bar> \<le> \<bar>x\<bar> ^ (2 * 15) / fact (2 * 15)"
    by (rule sin_psum_bound)
  also have "\<dots> \<le> 1024 / of_int scale" using assms by (rule remainder_small)
  finally show ?thesis .
qed

lemma cos_remainder:
  assumes "0 < x" and "x \<le> 11 / 5"
  shows "\<bar>cos x - psum 0 1 (x * x) 15\<bar> \<le> 1024 / of_int scale"
proof -
  have ax: "\<bar>x\<bar> \<le> 11 / 5" using assms by simp
  have "\<bar>cos x - psum 0 1 (x * x) 15\<bar> \<le> \<bar>x\<bar> ^ (2 * 15) / fact (2 * 15)"
    using assms(1) by (intro cos_psum_bound) simp_all
  also have "\<dots> \<le> 1024 / of_int scale" using ax by (rule remainder_small)
  finally show ?thesis .
qed

lemma Math_sin_eval:
  assumes "enclose (Suc 0) ql qh 0 15 t t 0 0 = (slo, shi)"
    and "\<bar>x\<bar> \<le> 11 / 5"
    and "0 \<le> t" "(of_int t :: real) = x * of_int scale"
    and "0 \<le> ql" "of_int ql \<le> x * x * of_int scale" "x * x * of_int scale \<le> of_int qh"
    and "lo = pow2 k" "hi = pow2 (k + 1)" "u = pow2 (k - 52)" "- 1022 \<le> k"
    and "lo \<le> (of_int slo - 1024) / of_int scale" "(of_int shi + 1024) / of_int scale < hi"
    and "(of_int m - 1 / 2) * u < (of_int slo - 1024) / of_int scale"
        "(of_int shi + 1024) / of_int scale < (of_int m + 1 / 2) * u"
  shows "Math_sin x = u * of_int m"
proof -
  note c = series_cell[OF assms(1) sin_remainder[OF assms(2)] assms(3-8) assms(10) assms(12-)]
  show ?thesis
    unfolding Math_sin_def
    using assms(8,9,10,11) c[THEN conjunct1] c[THEN conjunct2, THEN conjunct1]
      c[THEN conjunct2, THEN conjunct2]
    by (rule rnd64_near)
qed

lemma Math_sin_minus_eval:
  assumes "enclose (Suc 0) ql qh 0 15 t t 0 0 = (slo, shi)"
    and "\<bar>x\<bar> \<le> 11 / 5"
    and "0 \<le> t" "(of_int t :: real) = x * of_int scale"
    and "0 \<le> ql" "of_int ql \<le> x * x * of_int scale" "x * x * of_int scale \<le> of_int qh"
    and "lo = pow2 k" "hi = pow2 (k + 1)" "u = pow2 (k - 52)" "- 1022 \<le> k"
    and "lo \<le> (of_int slo - 1024) / of_int scale" "(of_int shi + 1024) / of_int scale < hi"
    and "(of_int m - 1 / 2) * u < (of_int slo - 1024) / of_int scale"
        "(of_int shi + 1024) / of_int scale < (of_int m + 1 / 2) * u"
  shows "Math_sin (- x) = - (u * of_int m)"
proof -
  note c = series_cell[OF assms(1) sin_remainder[OF assms(2)] assms(3-8) assms(10) assms(12-)]
  have "rnd64 (- sin x) = - (u * of_int m)"
    using assms(8,9,10,11) c[THEN conjunct1] c[THEN conjunct2, THEN conjunct1]
      c[THEN conjunct2, THEN conjunct2]
    by (rule rnd64_near_minus)
  then show ?thesis by (simp add: Math_sin_def)
qed

lemma Math_cos_eval:
  assumes "enclose 0 ql qh 0 15 t t 0 0 = (slo, shi)"
    and "0 < x" "x \<le> 11 / 5"
    and "0 \<le> t" "(of_int t :: real) = 1 * of_int scale"
    and "0 \<le> ql" "of_int ql \<le> x * x * of_int scale" "x * x * of_int scale \<le> of_int qh"
    and "lo = pow2 k" "hi = pow2 (k + 1)" "u = pow2 (k - 52)" "- 1022 \<le> k"
    and "lo \<le> (of_int slo - 1024) / of_int scale" "(of_int shi + 1024) / of_int scale < hi"
    and "(of_int m - 1 / 2) * u < (of_int slo - 1024) / of_int scale"
        "(of_int shi + 1024) / of_int scale < (of_int m + 1 / 2) * u"
  shows "Math_cos x = u * of_int m"
proof -
  note c = series_cell[OF assms(1) cos_remainder[OF assms(2,3)] assms(4-9) assms(11) assms(13-)]
  show ?thesis
    unfolding Math_cos_def
    using assms(9,10,11,12) c[THEN conjunct1] c[THEN conjunct2, THEN conjunct1]
      c[THEN conjunct2, THEN conjunct2]
    by (rule rnd64_near)
qed

lemma Math_cos_minus: "Math_cos (- x) = Math_cos x"
  by (simp add: Math_cos_def)

subsection \<open>The per-frame depth at four points, in binary64\<close>

text \<open>
  The literals, the two arguments and the depth for \<open>time = 0\<close> at \<open>(3, 4)\<close> and
  \<open>(7, 0)\<close>, and at the two points \<open>(-11.5, 10.5)\<close> and \<open>(-9.5, 8.5)\<close> of the net
  (row \<open>23\<close>, column \<open>1\<close> and row \<open>21\<close>, column \<open>3\<close>), together with the value of
  \<open>Math.sin(2.1) * 1 + Math.cos(1.4) * 0.5\<close>. In decimal notation:
  \<^item> at \<open>(3, 4)\<close> the arguments are \<open>2.0999999999999996\<close> and \<open>1.4000000000000001\<close>,
    the depth is \<open>0.9481929380989943\<close>;
  \<^item> at \<open>(7, 0)\<close> the arguments are \<open>2.1\<close> and \<open>1.4000000000000001\<close>, the depth is
    \<open>0.9481929380989941\<close>;
  \<^item> \<open>Math.sin(2.1) * 1 + Math.cos(1.4) * 0.5\<close> is \<open>0.9481929380989942\<close>;
  \<^item> at \<open>(-11.5, 10.5)\<close> the arguments are \<open>-0.2999999999999998\<close> and \<open>-0.2\<close>, the
    depth is \<open>0.19451308225928143\<close>;
  \<^item> at \<open>(-9.5, 8.5)\<close> the arguments are \<open>-0.30000000000000027\<close> and \<open>-0.2\<close>, the
    depth is \<open>0.194513082259281\<close>.
\<close>

lemma lit_0_3:
  "rnd64 0.3 = 5404319552844595 / 18014398509481984"
  by (rule trans[OF rnd64_near[where k = "- 2" and lo = "1 / 2 ^ 2" and hi = "1 / 2 ^ 1" and u = "1 / 2 ^ 54"
        and m = "5404319552844595"]])
     (simp_all add: pow2_def)

lemma x_times_0_3_3_4_0:
  "js_mul 3 (5404319552844595 / 18014398509481984) =
   2026619832316723 / 2251799813685248"
  unfolding js_mul_def
  by (rule trans[OF rnd64_tie[where k = "- 1" and lo = "1 / 2 ^ 1" and hi = "2 ^ 0" and u = "1 / 2 ^ 53"
        and f = "8106479329266892"]])
     (simp_all add: pow2_def)

lemma y_times_0_3_3_4_0:
  "js_mul 4 (5404319552844595 / 18014398509481984) =
   5404319552844595 / 4503599627370496"
  unfolding js_mul_def
  by (rule trans[OF rnd64_near[where k = "0" and lo = "2 ^ 0" and hi = "2 ^ 1" and u = "1 / 2 ^ 52"
        and m = "5404319552844595"]])
     (simp_all add: pow2_def)

lemma sum_of_products_3_4_0:
  "js_add (2026619832316723 / 2251799813685248) (5404319552844595 / 4503599627370496) =
   1182194902184755 / 562949953421312"
  unfolding js_add_def
  by (rule trans[OF rnd64_tie[where k = "1" and lo = "2 ^ 1" and hi = "2 ^ 2" and u = "1 / 2 ^ 51"
        and f = "4728779608739020"]])
     (simp_all add: pow2_def)

lemma plus_time_3_4_0:
  "js_add (1182194902184755 / 562949953421312) 0 =
   1182194902184755 / 562949953421312"
  unfolding js_add_def
  by (rule trans[OF rnd64_near[where k = "1" and lo = "2 ^ 1" and hi = "2 ^ 2" and u = "1 / 2 ^ 51"
        and m = "4728779608739020"]])
     (simp_all add: pow2_def)

lemma x_plus_y_3_4_0:
  "js_add 3 4 =
   7"
  unfolding js_add_def
  by (rule trans[OF rnd64_near[where k = "2" and lo = "2 ^ 2" and hi = "2 ^ 3" and u = "1 / 2 ^ 50"
        and m = "7881299347898368"]])
     (simp_all add: pow2_def)

lemma lit_0_2:
  "rnd64 0.2 = 3602879701896397 / 18014398509481984"
  by (rule trans[OF rnd64_near[where k = "- 3" and lo = "1 / 2 ^ 3" and hi = "1 / 2 ^ 2" and u = "1 / 2 ^ 55"
        and m = "7205759403792794"]])
     (simp_all add: pow2_def)

lemma sum_times_0_2_3_4_0:
  "js_mul 7 (3602879701896397 / 18014398509481984) =
   6305039478318695 / 4503599627370496"
  unfolding js_mul_def
  by (rule trans[OF rnd64_near[where k = "0" and lo = "2 ^ 0" and hi = "2 ^ 1" and u = "1 / 2 ^ 52"
        and m = "6305039478318695"]])
     (simp_all add: pow2_def)

lemma sin_argument64_3_4_0:
  "sin_argument64 3 4 0 = 1182194902184755 / 562949953421312"
  unfolding sin_argument64_def
    lit_0_3 x_times_0_3_3_4_0 y_times_0_3_3_4_0 sum_of_products_3_4_0 plus_time_3_4_0
  by (rule refl)

lemma cos_argument64_3_4:
  "cos_argument64 3 4 = 6305039478318695 / 4503599627370496"
  unfolding cos_argument64_def
    x_plus_y_3_4_0 lit_0_2 sum_times_0_2_3_4_0
  by (rule refl)

lemma Math_sin_3_4_0:
  "Math_sin (1182194902184755 / 562949953421312) =
   7775098763965181 / 9007199254740992"
proof -
  have enc: "enclose (Suc 0) 5331362864500512856567971 5331362864500512856567972 0 15
               2538744221190720837386240 2538744221190720837386240 0 0 =
             (1043556091075014886099640, 1043556091075014886099654)"
    by code_simp
  show ?thesis
    by (rule trans[OF Math_sin_eval[OF enc, where x = "1182194902184755 / 562949953421312"
          and k = "- 1" and lo = "1 / 2 ^ 1" and hi = "2 ^ 0" and u = "1 / 2 ^ 53" and m = 7775098763965181]])
       (simp_all add: pow2_def scale_def)
qed

lemma sine_times_1_3_4_0:
  "js_mul (7775098763965181 / 9007199254740992) 1 =
   7775098763965181 / 9007199254740992"
  unfolding js_mul_def
  by (rule trans[OF rnd64_near[where k = "- 1" and lo = "1 / 2 ^ 1" and hi = "2 ^ 0" and u = "1 / 2 ^ 53"
        and m = "7775098763965181"]])
     (simp_all add: pow2_def)

lemma Math_cos_3_4_0:
  "Math_cos (6305039478318695 / 4503599627370496) =
   6123711691446019 / 36028797018963968"
proof -
  have enc: "enclose 0 2369494606444673633395671 2369494606444673633395672 0 15
               1208925819614629174706176 1208925819614629174706176 0 0 =
             (205477667538230418064725, 205477667538230418064741)"
    by code_simp
  show ?thesis
    by (rule trans[OF Math_cos_eval[OF enc, where x = "6305039478318695 / 4503599627370496"
          and k = "- 3" and lo = "1 / 2 ^ 3" and hi = "1 / 2 ^ 2" and u = "1 / 2 ^ 55" and m = 6123711691446019]])
       (simp_all add: pow2_def scale_def)
qed

lemma lit_0_5:
  "rnd64 0.5 = 1 / 2"
  by (rule trans[OF rnd64_near[where k = "- 1" and lo = "1 / 2 ^ 1" and hi = "2 ^ 0" and u = "1 / 2 ^ 53"
        and m = "4503599627370496"]])
     (simp_all add: pow2_def)

lemma cosine_times_0_5_3_4_0:
  "js_mul (6123711691446019 / 36028797018963968) (1 / 2) =
   6123711691446019 / 72057594037927936"
  unfolding js_mul_def
  by (rule trans[OF rnd64_near[where k = "- 4" and lo = "1 / 2 ^ 4" and hi = "1 / 2 ^ 3" and u = "1 / 2 ^ 56"
        and m = "6123711691446019"]])
     (simp_all add: pow2_def)

lemma sum_of_terms_3_4_0:
  "js_add (7775098763965181 / 9007199254740992) (6123711691446019 / 72057594037927936) =
   8540562725395933 / 9007199254740992"
  unfolding js_add_def
  by (rule trans[OF rnd64_near[where k = "- 1" and lo = "1 / 2 ^ 1" and hi = "2 ^ 0" and u = "1 / 2 ^ 53"
        and m = "8540562725395933"]])
     (simp_all add: pow2_def)

lemma depth64_3_4_0:
  "depth64 3 4 0 = 8540562725395933 / 9007199254740992"
  unfolding depth64_def
    sin_argument64_3_4_0 Math_sin_3_4_0 sine_times_1_3_4_0 cos_argument64_3_4
    Math_cos_3_4_0 lit_0_5 cosine_times_0_5_3_4_0 sum_of_terms_3_4_0
  by (rule refl)

lemma x_times_0_3_7_0_0:
  "js_mul 7 (5404319552844595 / 18014398509481984) =
   4728779608739021 / 2251799813685248"
  unfolding js_mul_def
  by (rule trans[OF rnd64_near[where k = "1" and lo = "2 ^ 1" and hi = "2 ^ 2" and u = "1 / 2 ^ 51"
        and m = "4728779608739021"]])
     (simp_all add: pow2_def)

lemma y_times_0_3_7_0_0:
  "js_mul 0 (5404319552844595 / 18014398509481984) =
   0"
  unfolding js_mul_def
  by (simp add: rnd64_def)

lemma sum_of_products_7_0_0:
  "js_add (4728779608739021 / 2251799813685248) 0 =
   4728779608739021 / 2251799813685248"
  unfolding js_add_def
  by (rule trans[OF rnd64_near[where k = "1" and lo = "2 ^ 1" and hi = "2 ^ 2" and u = "1 / 2 ^ 51"
        and m = "4728779608739021"]])
     (simp_all add: pow2_def)

lemma x_plus_y_7_0_0:
  "js_add 7 0 =
   7"
  unfolding js_add_def
  by (rule trans[OF rnd64_near[where k = "2" and lo = "2 ^ 2" and hi = "2 ^ 3" and u = "1 / 2 ^ 50"
        and m = "7881299347898368"]])
     (simp_all add: pow2_def)

lemma sin_argument64_7_0_0:
  "sin_argument64 7 0 0 = 4728779608739021 / 2251799813685248"
  unfolding sin_argument64_def
    lit_0_3 x_times_0_3_7_0_0 y_times_0_3_7_0_0 sum_of_products_7_0_0
  by (rule refl)

lemma cos_argument64_7_0:
  "cos_argument64 7 0 = 6305039478318695 / 4503599627370496"
  unfolding cos_argument64_def
    x_plus_y_7_0_0 lit_0_2 sum_times_0_2_3_4_0
  by (rule refl)

lemma Math_sin_7_0_0:
  "Math_sin (4728779608739021 / 2251799813685248) =
   7775098763965179 / 9007199254740992"
proof -
  have enc: "enclose (Suc 0) 5331362864500515111425802 5331362864500515111425803 0 15
               2538744221190721374257152 2538744221190721374257152 0 0 =
             (1043556091075014615062450, 1043556091075014615062467)"
    by code_simp
  show ?thesis
    by (rule trans[OF Math_sin_eval[OF enc, where x = "4728779608739021 / 2251799813685248"
          and k = "- 1" and lo = "1 / 2 ^ 1" and hi = "2 ^ 0" and u = "1 / 2 ^ 53" and m = 7775098763965179]])
       (simp_all add: pow2_def scale_def)
qed

lemma sine_times_1_7_0_0:
  "js_mul (7775098763965179 / 9007199254740992) 1 =
   7775098763965179 / 9007199254740992"
  unfolding js_mul_def
  by (rule trans[OF rnd64_near[where k = "- 1" and lo = "1 / 2 ^ 1" and hi = "2 ^ 0" and u = "1 / 2 ^ 53"
        and m = "7775098763965179"]])
     (simp_all add: pow2_def)

lemma sum_of_terms_7_0_0:
  "js_add (7775098763965179 / 9007199254740992) (6123711691446019 / 72057594037927936) =
   8540562725395931 / 9007199254740992"
  unfolding js_add_def
  by (rule trans[OF rnd64_near[where k = "- 1" and lo = "1 / 2 ^ 1" and hi = "2 ^ 0" and u = "1 / 2 ^ 53"
        and m = "8540562725395931"]])
     (simp_all add: pow2_def)

lemma depth64_7_0_0:
  "depth64 7 0 0 = 8540562725395931 / 9007199254740992"
  unfolding depth64_def
    sin_argument64_7_0_0 Math_sin_7_0_0 sine_times_1_7_0_0 cos_argument64_7_0
    Math_cos_3_4_0 lit_0_5 cosine_times_0_5_3_4_0 sum_of_terms_7_0_0
  by (rule refl)

lemma lit_2_1:
  "rnd64 2.1 = 4728779608739021 / 2251799813685248"
  by (rule trans[OF rnd64_near[where k = "1" and lo = "2 ^ 1" and hi = "2 ^ 2" and u = "1 / 2 ^ 51"
        and m = "4728779608739021"]])
     (simp_all add: pow2_def)

lemma lit_1_4:
  "rnd64 1.4 = 3152519739159347 / 2251799813685248"
  by (rule trans[OF rnd64_near[where k = "0" and lo = "2 ^ 0" and hi = "2 ^ 1" and u = "1 / 2 ^ 52"
        and m = "6305039478318694"]])
     (simp_all add: pow2_def)

lemma Math_cos_1_4:
  "Math_cos (3152519739159347 / 2251799813685248) =
   6123711691446027 / 36028797018963968"
proof -
  have enc: "enclose 0 2369494606444672881776394 2369494606444672881776395 0 15
               1208925819614629174706176 1208925819614629174706176 0 0 =
             (205477667538230682594374, 205477667538230682594388)"
    by code_simp
  show ?thesis
    by (rule trans[OF Math_cos_eval[OF enc, where x = "3152519739159347 / 2251799813685248"
          and k = "- 3" and lo = "1 / 2 ^ 3" and hi = "1 / 2 ^ 2" and u = "1 / 2 ^ 55" and m = 6123711691446027]])
       (simp_all add: pow2_def scale_def)
qed

lemma cosine_times_0_5_literal:
  "js_mul (6123711691446027 / 36028797018963968) (1 / 2) =
   6123711691446027 / 72057594037927936"
  unfolding js_mul_def
  by (rule trans[OF rnd64_near[where k = "- 4" and lo = "1 / 2 ^ 4" and hi = "1 / 2 ^ 3" and u = "1 / 2 ^ 56"
        and m = "6123711691446027"]])
     (simp_all add: pow2_def)

lemma sum_of_terms_literal:
  "js_add (7775098763965179 / 9007199254740992) (6123711691446027 / 72057594037927936) =
   2135140681348983 / 2251799813685248"
  unfolding js_add_def
  by (rule trans[OF rnd64_near[where k = "- 1" and lo = "1 / 2 ^ 1" and hi = "2 ^ 0" and u = "1 / 2 ^ 53"
        and m = "8540562725395932"]])
     (simp_all add: pow2_def)

lemma literal64:
  "js_add (js_mul (Math_sin (rnd64 2.1)) 1) (js_mul (Math_cos (rnd64 1.4)) (rnd64 0.5)) =
   2135140681348983 / 2251799813685248"
  unfolding
    lit_2_1 Math_sin_7_0_0 sine_times_1_7_0_0 lit_1_4 Math_cos_1_4 lit_0_5
    cosine_times_0_5_literal sum_of_terms_literal
  by (rule refl)

lemma x_times_0_3_net_a:
  "js_mul (- (23 / 2)) (5404319552844595 / 18014398509481984) =
   - (7768709357214105 / 2251799813685248)"
  unfolding js_mul_def
  by (rule trans[OF rnd64_near[where k = "1" and lo = "2 ^ 1" and hi = "2 ^ 2" and u = "1 / 2 ^ 51"
        and m = "- 7768709357214105"]])
     (simp_all add: pow2_def)

lemma y_times_0_3_net_a:
  "js_mul (21 / 2) (5404319552844595 / 18014398509481984) =
   7093169413108531 / 2251799813685248"
  unfolding js_mul_def
  by (rule trans[OF rnd64_near[where k = "1" and lo = "2 ^ 1" and hi = "2 ^ 2" and u = "1 / 2 ^ 51"
        and m = "7093169413108531"]])
     (simp_all add: pow2_def)

lemma sum_of_products_net_a:
  "js_add (- (7768709357214105 / 2251799813685248)) (7093169413108531 / 2251799813685248) =
   - (337769972052787 / 1125899906842624)"
  unfolding js_add_def
  by (rule trans[OF rnd64_near[where k = "- 2" and lo = "1 / 2 ^ 2" and hi = "1 / 2 ^ 1" and u = "1 / 2 ^ 54"
        and m = "- 5404319552844592"]])
     (simp_all add: pow2_def)

lemma plus_time_net_a:
  "js_add (- (337769972052787 / 1125899906842624)) 0 =
   - (337769972052787 / 1125899906842624)"
  unfolding js_add_def
  by (rule trans[OF rnd64_near[where k = "- 2" and lo = "1 / 2 ^ 2" and hi = "1 / 2 ^ 1" and u = "1 / 2 ^ 54"
        and m = "- 5404319552844592"]])
     (simp_all add: pow2_def)

lemma x_plus_y_net_a:
  "js_add (- (23 / 2)) (21 / 2) =
   - 1"
  unfolding js_add_def
  by (rule trans[OF rnd64_near[where k = "0" and lo = "2 ^ 0" and hi = "2 ^ 1" and u = "1 / 2 ^ 52"
        and m = "- 4503599627370496"]])
     (simp_all add: pow2_def)

lemma sum_times_0_2_net_a:
  "js_mul (- 1) (3602879701896397 / 18014398509481984) =
   - (3602879701896397 / 18014398509481984)"
  unfolding js_mul_def
  by (rule trans[OF rnd64_near[where k = "- 3" and lo = "1 / 2 ^ 3" and hi = "1 / 2 ^ 2" and u = "1 / 2 ^ 55"
        and m = "- 7205759403792794"]])
     (simp_all add: pow2_def)

lemma sin_argument64_net_a:
  "sin_argument64 (- (23 / 2)) (21 / 2) 0 = - (337769972052787 / 1125899906842624)"
  unfolding sin_argument64_def
    lit_0_3 x_times_0_3_net_a y_times_0_3_net_a sum_of_products_net_a plus_time_net_a
  by (rule refl)

lemma cos_argument64_net_a:
  "cos_argument64 (- (23 / 2)) (21 / 2) = - (3602879701896397 / 18014398509481984)"
  unfolding cos_argument64_def
    x_plus_y_net_a lit_0_2 sum_times_0_2_net_a
  by (rule refl)

lemma Math_sin_net_a:
  "Math_sin (- (337769972052787 / 1125899906842624)) =
   - (332726173150115 / 1125899906842624)"
proof -
  have enc: "enclose (Suc 0) 108803323765316496874536 108803323765316496874537 0 15
               362677745884388537663488 362677745884388537663488 0 0 =
             (357262008050744337043614, 357262008050744337043629)"
    by code_simp
  show ?thesis
    by (rule trans[OF Math_sin_minus_eval[OF enc, where x = "337769972052787 / 1125899906842624"
          and k = "- 2" and lo = "1 / 2 ^ 2" and hi = "1 / 2 ^ 1" and u = "1 / 2 ^ 54" and m = 5323618770401840]])
       (simp_all add: pow2_def scale_def)
qed

lemma sine_times_1_net_a:
  "js_mul (- (332726173150115 / 1125899906842624)) 1 =
   - (332726173150115 / 1125899906842624)"
  unfolding js_mul_def
  by (rule trans[OF rnd64_near[where k = "- 2" and lo = "1 / 2 ^ 2" and hi = "1 / 2 ^ 1" and u = "1 / 2 ^ 54"
        and m = "- 5323618770401840"]])
     (simp_all add: pow2_def)

lemma Math_cos_net_a:
  "Math_cos (- (3602879701896397 / 18014398509481984)) =
   4413827474764093 / 4503599627370496"
proof -
  have enc: "enclose 0 48357032784585172356956 48357032784585172356957 0 15
               1208925819614629174706176 1208925819614629174706176 0 0 =
             (1184827790893627800112881, 1184827790893627800112895)"
    by code_simp
  show ?thesis
    unfolding Math_cos_minus
    by (rule trans[OF Math_cos_eval[OF enc, where x = "3602879701896397 / 18014398509481984"
          and k = "- 1" and lo = "1 / 2 ^ 1" and hi = "2 ^ 0" and u = "1 / 2 ^ 53" and m = 8827654949528186]])
       (simp_all add: pow2_def scale_def)
qed

lemma cosine_times_0_5_net_a:
  "js_mul (4413827474764093 / 4503599627370496) (1 / 2) =
   4413827474764093 / 9007199254740992"
  unfolding js_mul_def
  by (rule trans[OF rnd64_near[where k = "- 2" and lo = "1 / 2 ^ 2" and hi = "1 / 2 ^ 1" and u = "1 / 2 ^ 54"
        and m = "8827654949528186"]])
     (simp_all add: pow2_def)

lemma sum_of_terms_net_a:
  "js_add (- (332726173150115 / 1125899906842624)) (4413827474764093 / 9007199254740992) =
   1752018089563173 / 9007199254740992"
  unfolding js_add_def
  by (rule trans[OF rnd64_near[where k = "- 3" and lo = "1 / 2 ^ 3" and hi = "1 / 2 ^ 2" and u = "1 / 2 ^ 55"
        and m = "7008072358252692"]])
     (simp_all add: pow2_def)

lemma depth64_net_a:
  "depth64 (- (23 / 2)) (21 / 2) 0 = 1752018089563173 / 9007199254740992"
  unfolding depth64_def
    sin_argument64_net_a Math_sin_net_a sine_times_1_net_a cos_argument64_net_a
    Math_cos_net_a lit_0_5 cosine_times_0_5_net_a sum_of_terms_net_a
  by (rule refl)

lemma x_times_0_3_net_b:
  "js_mul (- (19 / 2)) (5404319552844595 / 18014398509481984) =
   - (6417629469002957 / 2251799813685248)"
  unfolding js_mul_def
  by (rule trans[OF rnd64_near[where k = "1" and lo = "2 ^ 1" and hi = "2 ^ 2" and u = "1 / 2 ^ 51"
        and m = "- 6417629469002957"]])
     (simp_all add: pow2_def)

lemma y_times_0_3_net_b:
  "js_mul (17 / 2) (5404319552844595 / 18014398509481984) =
   2871044762448691 / 1125899906842624"
  unfolding js_mul_def
  by (rule trans[OF rnd64_near[where k = "1" and lo = "2 ^ 1" and hi = "2 ^ 2" and u = "1 / 2 ^ 51"
        and m = "5742089524897382"]])
     (simp_all add: pow2_def)

lemma sum_of_products_net_b:
  "js_add (- (6417629469002957 / 2251799813685248)) (2871044762448691 / 1125899906842624) =
   - (675539944105575 / 2251799813685248)"
  unfolding js_add_def
  by (rule trans[OF rnd64_near[where k = "- 2" and lo = "1 / 2 ^ 2" and hi = "1 / 2 ^ 1" and u = "1 / 2 ^ 54"
        and m = "- 5404319552844600"]])
     (simp_all add: pow2_def)

lemma plus_time_net_b:
  "js_add (- (675539944105575 / 2251799813685248)) 0 =
   - (675539944105575 / 2251799813685248)"
  unfolding js_add_def
  by (rule trans[OF rnd64_near[where k = "- 2" and lo = "1 / 2 ^ 2" and hi = "1 / 2 ^ 1" and u = "1 / 2 ^ 54"
        and m = "- 5404319552844600"]])
     (simp_all add: pow2_def)

lemma x_plus_y_net_b:
  "js_add (- (19 / 2)) (17 / 2) =
   - 1"
  unfolding js_add_def
  by (rule trans[OF rnd64_near[where k = "0" and lo = "2 ^ 0" and hi = "2 ^ 1" and u = "1 / 2 ^ 52"
        and m = "- 4503599627370496"]])
     (simp_all add: pow2_def)

lemma sin_argument64_net_b:
  "sin_argument64 (- (19 / 2)) (17 / 2) 0 = - (675539944105575 / 2251799813685248)"
  unfolding sin_argument64_def
    lit_0_3 x_times_0_3_net_b y_times_0_3_net_b sum_of_products_net_b plus_time_net_b
  by (rule refl)

lemma cos_argument64_net_b:
  "cos_argument64 (- (19 / 2)) (17 / 2) = - (3602879701896397 / 18014398509481984)"
  unfolding cos_argument64_def
    x_plus_y_net_b lit_0_2 sum_times_0_2_net_a
  by (rule refl)

lemma Math_sin_net_b:
  "Math_sin (- (675539944105575 / 2251799813685248)) =
   - (665452346300231 / 2251799813685248)"
proof -
  have enc: "enclose (Suc 0) 108803323765316818997084 108803323765316818997085 0 15
               362677745884389074534400 362677745884389074534400 0 0 =
             (357262008050744849935986, 357262008050744849936000)"
    by code_simp
  show ?thesis
    by (rule trans[OF Math_sin_minus_eval[OF enc, where x = "675539944105575 / 2251799813685248"
          and k = "- 2" and lo = "1 / 2 ^ 2" and hi = "1 / 2 ^ 1" and u = "1 / 2 ^ 54" and m = 5323618770401848]])
       (simp_all add: pow2_def scale_def)
qed

lemma sine_times_1_net_b:
  "js_mul (- (665452346300231 / 2251799813685248)) 1 =
   - (665452346300231 / 2251799813685248)"
  unfolding js_mul_def
  by (rule trans[OF rnd64_near[where k = "- 2" and lo = "1 / 2 ^ 2" and hi = "1 / 2 ^ 1" and u = "1 / 2 ^ 54"
        and m = "- 5323618770401848"]])
     (simp_all add: pow2_def)

lemma sum_of_terms_net_b:
  "js_add (- (665452346300231 / 2251799813685248)) (4413827474764093 / 9007199254740992) =
   1752018089563169 / 9007199254740992"
  unfolding js_add_def
  by (rule trans[OF rnd64_near[where k = "- 3" and lo = "1 / 2 ^ 3" and hi = "1 / 2 ^ 2" and u = "1 / 2 ^ 55"
        and m = "7008072358252676"]])
     (simp_all add: pow2_def)

lemma depth64_net_b:
  "depth64 (- (19 / 2)) (17 / 2) 0 = 1752018089563169 / 9007199254740992"
  unfolding depth64_def
    sin_argument64_net_b Math_sin_net_b sine_times_1_net_b cos_argument64_net_b
    Math_cos_net_a lit_0_5 cosine_times_0_5_net_a sum_of_terms_net_b
  by (rule refl)

section \<open>The claims\<close>

subsection \<open>The table and the line mesh\<close>

text \<open>
  Claim C4. For all \<open>i\<close>, \<open>j\<close> below \<open>gridSize\<close>, the cell in row \<open>i\<close> and column \<open>j\<close>
  of the table has \<open>x = (j - gridSize / 2) * spacing\<close> and
  \<open>y = (i - gridSize / 2) * spacing\<close>, where \<open>gridSize = 25\<close> and \<open>spacing = 1.0\<close>;
  the table has \<open>gridSize\<close> rows of \<open>gridSize\<close> cells.
\<close>

theorem lattice_coordinates:
  assumes "i < gridSize" and "j < gridSize"
  shows "cell_x (snd createFishingNet ! i ! j) = (real j - real gridSize / 2) * spacing
       \<and> cell_y (snd createFishingNet ! i ! j) = (real i - real gridSize / 2) * spacing
       \<and> gridSize = 25 \<and> spacing = 1.0
       \<and> length (snd createFishingNet) = gridSize
       \<and> length (snd createFishingNet ! i) = gridSize"
  using assms
  by (simp add: createFishingNet_def netGeometry_nth length_netGeometry)
     (simp add: netGeometry_def length_rowCoords gridSize_def spacing_def)

theorem lattice_coordinates_witness:
  "cell_x (snd createFishingNet ! 24 ! 0) = - 12.5
 \<and> cell_y (snd createFishingNet ! 24 ! 0) = 11.5"
  using lattice_coordinates[of 24 0] by (simp add: gridSize_def spacing_def)

text \<open>
  Claim C5 says that the table is centred at the origin: the set of its \<open>x\<close>
  coordinates, and the set of its \<open>y\<close> coordinates, is symmetric about \<open>0\<close>. The
  table does not have this property: the coordinates run from \<open>-12.5\<close> to \<open>11.5\<close>,
  so \<open>-12.5\<close> occurs and its mirror image \<open>12.5\<close> does not.
\<close>

theorem lattice_not_symmetric:
  "- (25 / 2) \<in> lattice_xs \<and> 25 / 2 \<notin> lattice_xs
 \<and> - (25 / 2) \<in> lattice_ys \<and> 25 / 2 \<notin> lattice_ys"
  unfolding lattice_xs_eq lattice_ys_eq by (auto simp: image_iff)

text \<open>
  Claim C6. The group holds exactly \<open>2 * gridSize\<close> polylines, the \<open>gridSize\<close>
  horizontal ones followed by the \<open>gridSize\<close> vertical ones, and every polyline
  has exactly \<open>gridSize\<close> points (three buffer entries each).
\<close>

theorem line_mesh_counts:
  "length (children (fst createFishingNet)) = 2 * gridSize
 \<and> (\<forall>l \<in> set (children (fst createFishingNet)).
       pointCount l = gridSize \<and> length (positions l) = 3 * gridSize)
 \<and> (\<forall>i < gridSize. children (fst createFishingNet) ! i = newLine (horizontalPoints i))
 \<and> (\<forall>j < gridSize. children (fst createFishingNet) ! (gridSize + j) = newLine (verticalPoints j))"
proof -
  have "pointCount l = gridSize \<and> length (positions l) = 3 * gridSize"
    if "l \<in> set (children (fst createFishingNet))" for l
  proof -
    from that obtain k where "l = newLine (horizontalPoints k) \<or> l = newLine (verticalPoints k)"
      by (auto simp: children_createFishingNet)
    then show ?thesis
      by (auto simp: pointCount_newLine length_horizontalPoints length_verticalPoints
          length_positions_newLine)
  qed
  then show ?thesis
    by (simp add: length_children_createFishingNet horizontal_child vertical_child)
qed

theorem line_mesh_counts_witness:
  "length (children (fst createFishingNet)) = 50
 \<and> pointCount (children (fst createFishingNet) ! 0) = 25
 \<and> pointCount (children (fst createFishingNet) ! 49) = 25"
proof -
  have "children (fst createFishingNet) ! 0 \<in> set (children (fst createFishingNet))"
       "children (fst createFishingNet) ! 49 \<in> set (children (fst createFishingNet))"
    by (simp_all add: length_children_createFishingNet gridSize_def)
  then show ?thesis using line_mesh_counts by (simp add: gridSize_def)
qed

text \<open>
  Claim C2. In the new net, the point in row \<open>i\<close> and column \<open>j\<close> has depth
  \<open>sin (j * 0.3 + i * 0.3) * 1 + cos ((x + y) * 0.2) * 0.5\<close> on the horizontal
  polyline of row \<open>i\<close> (where it is point \<open>j\<close>), and depth
  \<open>cos (j * 0.3 + i * 0.3) * 1 + sin ((x + y) * 0.2) * 0.5\<close> on the vertical
  polyline of column \<open>j\<close> (where it is point \<open>i\<close>). The first term takes the
  indices, the second one the coordinates \<open>x\<close> and \<open>y\<close> of the point, which are
  those of cell \<open>(i, j)\<close> of the table on both polylines.
\<close>

theorem construction_depth:
  assumes "i < gridSize" and "j < gridSize"
  shows "pz (children (fst createFishingNet) ! i) j =
           sin (real j * 0.3 + real i * 0.3) * 1
           + cos ((px (children (fst createFishingNet) ! i) j
                   + py (children (fst createFishingNet) ! i) j) * 0.2) * 0.5
       \<and> pz (children (fst createFishingNet) ! (gridSize + j)) i =
           cos (real j * 0.3 + real i * 0.3) * 1
           + sin ((px (children (fst createFishingNet) ! (gridSize + j)) i
                   + py (children (fst createFishingNet) ! (gridSize + j)) i) * 0.2) * 0.5
       \<and> px (children (fst createFishingNet) ! i) j = cell_x (snd createFishingNet ! i ! j)
       \<and> py (children (fst createFishingNet) ! i) j = cell_y (snd createFishingNet ! i ! j)
       \<and> px (children (fst createFishingNet) ! (gridSize + j)) i = cell_x (snd createFishingNet ! i ! j)
       \<and> py (children (fst createFishingNet) ! (gridSize + j)) i = cell_y (snd createFishingNet ! i ! j)"
proof -
  have geo: "snd createFishingNet = netGeometry" by (simp add: createFishingNet_def)
  show ?thesis
    unfolding geo
    by (simp only: horizontal_point[OF assms] vertical_point[OF assms] simp_thms)
qed

theorem construction_depth_witness:
  "pz (children (fst createFishingNet) ! 2) 3 =
     sin (3 * 0.3 + 2 * 0.3) * 1 + cos ((- 9.5 + - 10.5) * 0.2) * 0.5
 \<and> pz (children (fst createFishingNet) ! (25 + 3)) 2 =
     cos (3 * 0.3 + 2 * 0.3) * 1 + sin ((- 9.5 + - 10.5) * 0.2) * 0.5"
proof -
  have h: "2 < gridSize" "3 < gridSize" by (simp_all add: gridSize_def)
  note c = construction_depth[OF h]
  have x: "cell_x (snd createFishingNet ! 2 ! 3) = - 9.5"
    and y: "cell_y (snd createFishingNet ! 2 ! 3) = - 10.5"
    by (simp_all add: createFishingNet_def netGeometry_nth[OF h] gridSize_def spacing_def)
  from c have hx: "px (children (fst createFishingNet) ! 2) 3 = - 9.5"
    and hy: "py (children (fst createFishingNet) ! 2) 3 = - 10.5"
    and vx: "px (children (fst createFishingNet) ! (gridSize + 3)) 2 = - 9.5"
    and vy: "py (children (fst createFishingNet) ! (gridSize + 3)) 2 = - 10.5"
    unfolding x y by blast+
  from c have "pz (children (fst createFishingNet) ! 2) 3 =
      sin (real 3 * 0.3 + real 2 * 0.3) * 1 + cos ((- 9.5 + - 10.5) * 0.2) * 0.5"
    unfolding hx hy by blast
  moreover from c have "pz (children (fst createFishingNet) ! (gridSize + 3)) 2 =
      cos (real 3 * 0.3 + real 2 * 0.3) * 1 + sin ((- 9.5 + - 10.5) * 0.2) * 0.5"
    unfolding vx vy by blast
  ultimately show ?thesis by (simp add: gridSize_def)
qed

subsection \<open>One animation frame\<close>

text \<open>
  Claim C1 says that one call of \<open>animate\<close> recomputes the depth of every point
  of every polyline by one formula, and that \<open>depth(3, 4, 0)\<close> is exactly
  \<open>sin(2.1) * 1 + cos(1.4) * 0.5\<close>. The second part fails for the numbers the script
  computes with: at \<open>x = 3\<close>, \<open>y = 4\<close>, \<open>time = 0\<close> the expression does not have the
  value of \<open>Math.sin(2.1) * 1 + Math.cos(1.4) * 0.5\<close>.
\<close>

theorem per_frame_depth_literal_counterexample:
  "depth64 3 4 0 \<noteq>
   js_add (js_mul (Math_sin (rnd64 2.1)) 1) (js_mul (Math_cos (rnd64 1.4)) (rnd64 0.5))"
  unfolding depth64_3_4_0 literal64 by simp

text \<open>
  Claim C1, amended. One call of \<open>animate\<close> recomputes the depth of every point of
  every polyline as \<open>sin (x * 0.3 + y * 0.3 + t) * 1 + cos ((x + y) * 0.2) * 0.5\<close>,
  where \<open>x\<close> and \<open>y\<close> are the coordinates of the point and \<open>t\<close> is \<open>time\<close> after its
  increment in this call. The formula does not depend on the polyline, so
  horizontal and vertical lines are treated alike. At \<open>x = 3\<close>, \<open>y = 4\<close>, \<open>t = 0\<close>
  the script passes \<open>2.0999999999999996\<close> to \<open>Math.sin\<close> and \<open>1.4000000000000001\<close> to
  \<open>Math.cos\<close>, not \<open>2.1\<close> and \<open>1.4\<close>, and the depth it computes is
  \<open>0.9481929380989943\<close>, one unit in the last place above the value
  \<open>0.9481929380989942\<close> of \<open>Math.sin(2.1) * 1 + Math.cos(1.4) * 0.5\<close>.
\<close>

theorem per_frame_depth:
  assumes "k < length (children (fishingNet s))"
    and "p < pointCount (children (fishingNet s) ! k)"
  shows "pz (children (fishingNet (animate r s)) ! k) p =
           sin (px (children (fishingNet s) ! k) p * 0.3
                + py (children (fishingNet s) ! k) p * 0.3
                + time (animate r s)) * 1
           + cos ((px (children (fishingNet s) ! k) p
                   + py (children (fishingNet s) ! k) p) * 0.2) * 0.5
       \<and> pz (children (fishingNet (animate r s)) ! k) p =
           depth (px (children (fishingNet s) ! k) p) (py (children (fishingNet s) ! k) p)
                 (time (animate r s))
       \<and> sin_argument64 3 4 0 = 1182194902184755 / 562949953421312
       \<and> rnd64 2.1 = 4728779608739021 / 2251799813685248
       \<and> cos_argument64 3 4 = 6305039478318695 / 4503599627370496
       \<and> rnd64 1.4 = 3152519739159347 / 2251799813685248
       \<and> depth64 3 4 0 = 8540562725395933 / 9007199254740992
       \<and> js_add (js_mul (Math_sin (rnd64 2.1)) 1) (js_mul (Math_cos (rnd64 1.4)) (rnd64 0.5))
           = 2135140681348983 / 2251799813685248"
proof -
  have d: "pz (children (fishingNet (animate r s)) ! k) p =
        depth (px (children (fishingNet s) ! k) p) (py (children (fishingNet s) ! k) p)
              (time (animate r s))"
    using assms by (rule pz_animate)
  have f: "pz (children (fishingNet (animate r s)) ! k) p =
           sin (px (children (fishingNet s) ! k) p * 0.3
                + py (children (fishingNet s) ! k) p * 0.3
                + time (animate r s)) * 1
           + cos ((px (children (fishingNet s) ! k) p
                   + py (children (fishingNet s) ! k) p) * 0.2) * 0.5"
    unfolding d depth_def by (rule refl)
  show ?thesis
    by (intro conjI f d sin_argument64_3_4_0 lit_2_1 cos_argument64_3_4 lit_1_4
        depth64_3_4_0 literal64)
qed

theorem per_frame_depth_witness:
  "pz (children (fishingNet (animate 0.5 initial)) ! 30) 7 =
     sin (- 7.5 * 0.3 + - 5.5 * 0.3 + 0.01) * 1 + cos ((- 7.5 + - 5.5) * 0.2) * 0.5"
proof -
  have k: "30 < length (children (fishingNet initial))"
    by (simp add: length_children_initial gridSize_def)
  have p: "7 < pointCount (children (fishingNet initial) ! 30)"
    by (simp add: pointCount_initial gridSize_def)
  have ij: "7 < gridSize" "5 < gridSize" by (simp_all add: gridSize_def)
  have x: "px (children (fishingNet initial) ! 30) 7 = - 7.5"
    and y: "py (children (fishingNet initial) ! 30) 7 = - 5.5"
    using vertical_xy[OF ij] by (simp_all add: gridSize_def)
  have t: "time (animate 0.5 initial) = 0.01"
    by (simp add: time_animate initial_def)
  from per_frame_depth[OF k p, of "0.5"] show ?thesis
    unfolding x y t by blast
qed

text \<open>
  Claim C3. After any number of calls of \<open>animate\<close>, with any random draws, the
  \<open>x\<close> and \<open>y\<close> coordinates of every point of every polyline are those it had
  before (for the run that starts with the new net: those of construction). A
  call changes nothing in a position buffer but the entries at the indices
  \<open>2, 5, 8, ...\<close>, the \<open>z\<close> components; the number of polylines and the length of
  each buffer stay the same.
\<close>

theorem ticks_preserve_xy:
  assumes "k < length (children (fishingNet s))"
    and "p < pointCount (children (fishingNet s) ! k)"
  shows "px (children (fishingNet (run rs s)) ! k) p = px (children (fishingNet s) ! k) p
       \<and> py (children (fishingNet (run rs s)) ! k) p = py (children (fishingNet s) ! k) p
       \<and> length (children (fishingNet (run rs s))) = length (children (fishingNet s))
       \<and> length (positions (children (fishingNet (run rs s)) ! k)) =
           length (positions (children (fishingNet s) ! k))
       \<and> (\<forall>i < length (positions (children (fishingNet s) ! k)). i mod 3 \<noteq> 2 \<longrightarrow>
             positions (children (fishingNet (run rs s)) ! k) ! i =
             positions (children (fishingNet s) ! k) ! i)"
  using assms
  by (simp add: px_run py_run length_children_run positions_run_length positions_run_nth)

theorem ticks_preserve_xy_witness:
  "px (children (fishingNet (run [0.5, 0.99, 0] initial)) ! 30) 7 = - 7.5
 \<and> py (children (fishingNet (run [0.5, 0.99, 0] initial)) ! 30) 7 = - 5.5"
proof -
  have k: "30 < length (children (fishingNet initial))"
    by (simp add: length_children_initial gridSize_def)
  have p: "7 < pointCount (children (fishingNet initial) ! 30)"
    by (simp add: pointCount_initial gridSize_def)
  have ij: "7 < gridSize" "5 < gridSize" by (simp_all add: gridSize_def)
  have x: "px (children (fishingNet initial) ! 30) 7 = - 7.5"
    and y: "py (children (fishingNet initial) ! 30) 7 = - 5.5"
    using vertical_xy[OF ij] by (simp_all add: gridSize_def)
  from ticks_preserve_xy[OF k p, of "[0.5, 0.99, 0]"] show ?thesis
    unfolding x y by blast
qed

subsection \<open>The time accumulator\<close>

text \<open>
  Claim C7. \<open>time\<close> starts at \<open>0\<close>. A call of \<open>animate\<close> whose random draw \<open>r\<close>
  lies in \<open>[0, 1)\<close>, as every value of \<open>Math.random()\<close> does, advances \<open>time\<close> by
  \<open>floor (r * 20) * 0.001\<close>, a value between \<open>0\<close> and \<open>0.019\<close>. Hence over every
  sequence of such calls \<open>time\<close> never decreases: its value after the first \<open>m\<close>
  calls is at most its value after the first \<open>n\<close> calls whenever \<open>m \<le> n\<close>, and it
  is never below its starting value.
\<close>

theorem time_monotone:
  assumes "\<forall>r \<in> set rs. 0 \<le> r \<and> r < 1" and "0 \<le> r" and "r < 1" and "m \<le> n"
  shows "time initial = 0
       \<and> time (animate r s) = time s + of_int \<lfloor>r * 20\<rfloor> * 0.001
       \<and> 0 \<le> of_int \<lfloor>r * 20\<rfloor> * (0.001::real)
       \<and> of_int \<lfloor>r * 20\<rfloor> * (0.001::real) \<le> 0.019
       \<and> time s \<le> time (animate r s)
       \<and> time (run (take m rs) s) \<le> time (run (take n rs) s)
       \<and> time s \<le> time (run rs s)"
  using assms
  by (simp add: initial_def time_animate step_range time_run_take_mono time_run_mono)

theorem time_monotone_witness:
  "time (animate 0.99 initial) = 0.019
 \<and> time (run (take 1 [0.5, 0.99, 0]) initial) \<le> time (run (take 3 [0.5, 0.99, 0]) initial)
 \<and> time (run [0.5, 0.99, 0] initial) = 0.029"
proof -
  have draws: "\<forall>r \<in> set [0.5, 0.99, 0::real]. 0 \<le> r \<and> r < 1" by simp
  have r: "(0::real) \<le> 0.99" "(0.99::real) < 1" by simp_all
  have mn: "(1::nat) \<le> 3" by simp
  have f: "\<lfloor>0.99 * 20 :: real\<rfloor> = 19" by (simp add: floor_eq_iff)
  have "time (run [0.5, 0.99, 0] initial) = 0.029"
    by (simp add: time_animate initial_def floor_eq_iff)
  with time_monotone[OF draws r mn, of initial] show ?thesis
    by (simp add: f)
qed

subsection \<open>The resize listener\<close>

text \<open>
  Claim C8. For every resize event with window dimensions \<open>newWidth\<close> and
  \<open>newHeight\<close>, the listener sets the aspect of the camera to the quotient
  \<open>newWidth / newHeight\<close>, recomputes the projection from it, and sets the size of
  the renderer to \<open>newWidth\<close> by \<open>newHeight\<close>. For a positive height the quotient is
  the number \<open>newWidth / newHeight\<close>; for \<open>800\<close> by \<open>600\<close> the aspect is \<open>800 / 600\<close>
  and the size is \<open>800\<close> by \<open>600\<close>.
\<close>

theorem resize_sets_aspect_and_size:
  "camera_aspect (resize newWidth newHeight v) = js_divide newWidth newHeight
 \<and> projection_aspect (resize newWidth newHeight v) = js_divide newWidth newHeight
 \<and> renderer_width (resize newWidth newHeight v) = newWidth
 \<and> renderer_height (resize newWidth newHeight v) = newHeight
 \<and> (0 < newHeight \<longrightarrow>
       camera_aspect (resize newWidth newHeight v) = Finite (real newWidth / real newHeight))
 \<and> camera_aspect (resize 800 600 v) = Finite (800 / 600)
 \<and> renderer_width (resize 800 600 v) = 800
 \<and> renderer_height (resize 800 600 v) = 600"
  by (simp add: resize_def setSize_def updateProjectionMatrix_def js_divide_def)

theorem resize_sets_aspect_and_size_witness:
  "camera_aspect (resize 1920 1080
      \<lparr> camera_aspect = Finite 1, projection_aspect = Finite 1,
        renderer_width = 100, renderer_height = 100 \<rparr>) = Finite (16 / 9)"
proof -
  let ?v = "\<lparr> camera_aspect = Finite 1, projection_aspect = Finite 1,
             renderer_width = 100, renderer_height = 100 \<rparr>"
  have h: "(0::nat) < 1080" by simp
  from resize_sets_aspect_and_size[of 1920 1080 ?v] h
  have "camera_aspect (resize 1920 1080 ?v) = Finite (real 1920 / real 1080)"
    by blast
  then show ?thesis by simp
qed

subsection \<open>The net after a frame\<close>

text \<open>
  Claim C9. After the first call of \<open>animate\<close> and after every later one, the
  depth of every point of every polyline is
  \<open>sin (x * 0.3 + y * 0.3 + t) * 1 + cos ((x + y) * 0.2) * 0.5\<close> for its own \<open>x\<close> and
  \<open>y\<close> and the current \<open>time\<close> \<open>t\<close>. Hence two points with the same \<open>x\<close> and \<open>y\<close>,
  such as the two copies of a crossing on its horizontal and on its vertical
  polyline, have the same depth: the difference the construction makes between
  horizontal and vertical lines is gone.
\<close>

theorem after_tick_single_formula:
  assumes "rs \<noteq> []"
    and "k < length (children (fishingNet s))"
    and "p < pointCount (children (fishingNet s) ! k)"
    and "k' < length (children (fishingNet s))"
    and "p' < pointCount (children (fishingNet s) ! k')"
  shows "pz (children (fishingNet (run rs s)) ! k) p =
           sin (px (children (fishingNet (run rs s)) ! k) p * 0.3
                + py (children (fishingNet (run rs s)) ! k) p * 0.3
                + time (run rs s)) * 1
           + cos ((px (children (fishingNet (run rs s)) ! k) p
                   + py (children (fishingNet (run rs s)) ! k) p) * 0.2) * 0.5
       \<and> (px (children (fishingNet (run rs s)) ! k) p = px (children (fishingNet (run rs s)) ! k') p'
          \<and> py (children (fishingNet (run rs s)) ! k) p = py (children (fishingNet (run rs s)) ! k') p'
          \<longrightarrow> pz (children (fishingNet (run rs s)) ! k) p = pz (children (fishingNet (run rs s)) ! k') p')"
proof -
  have "pz (children (fishingNet (run rs s)) ! k) p =
        depth (px (children (fishingNet (run rs s)) ! k) p)
              (py (children (fishingNet (run rs s)) ! k) p) (time (run rs s))"
    using assms(1,2,3) by (simp add: pz_run px_run py_run)
  moreover have "pz (children (fishingNet (run rs s)) ! k') p' =
        depth (px (children (fishingNet (run rs s)) ! k') p')
              (py (children (fishingNet (run rs s)) ! k') p') (time (run rs s))"
    using assms(1,4,5) by (simp add: pz_run px_run py_run)
  ultimately show ?thesis by (simp add: depth_def)
qed

theorem after_tick_single_formula_witness:
  "pz (children (fishingNet (run [0.5, 0.99] initial)) ! 3) 5
   = pz (children (fishingNet (run [0.5, 0.99] initial)) ! 30) 3
 \<and> pz (children (fishingNet (run [0.5, 0.99] initial)) ! 3) 5
   = sin (- 7.5 * 0.3 + - 9.5 * 0.3 + 0.029) * 1 + cos ((- 7.5 + - 9.5) * 0.2) * 0.5"
proof -
  let ?rs = "[0.5, 0.99 :: real]"
  have ne: "?rs \<noteq> []" by simp
  have k: "3 < length (children (fishingNet initial))"
    and k': "30 < length (children (fishingNet initial))"
    by (simp_all add: length_children_initial gridSize_def)
  have p: "5 < pointCount (children (fishingNet initial) ! 3)"
    and p': "3 < pointCount (children (fishingNet initial) ! 30)"
    by (simp_all add: pointCount_initial gridSize_def)
  have ij: "3 < gridSize" "5 < gridSize" by (simp_all add: gridSize_def)
  have x: "px (children (fishingNet (run ?rs initial)) ! 3) 5 = - 7.5"
    by (rule trans[OF px_run[OF k p]]) (simp add: horizontal_xy[OF ij])
  have y: "py (children (fishingNet (run ?rs initial)) ! 3) 5 = - 9.5"
    by (rule trans[OF py_run[OF k p]]) (simp add: horizontal_xy[OF ij])
  have x': "px (children (fishingNet (run ?rs initial)) ! 30) 3 = - 7.5"
    by (rule trans[OF px_run[OF k' p']]) (use vertical_xy[OF ij] in \<open>simp add: gridSize_def\<close>)
  have y': "py (children (fishingNet (run ?rs initial)) ! 30) 3 = - 9.5"
    by (rule trans[OF py_run[OF k' p']]) (use vertical_xy[OF ij] in \<open>simp add: gridSize_def\<close>)
  have t: "time (run ?rs initial) = 0.029"
    by (simp add: time_animate initial_def floor_eq_iff)
  from after_tick_single_formula[OF ne k p k' p'] show ?thesis
    unfolding x y x' y' t by blast
qed

text \<open>
  Claim C10 says that the depth \<open>animate\<close> computes depends on the position only
  through \<open>x + y\<close>, so that it is constant along every anti-diagonal of the net.
  For the numbers the script computes with it is not. \<open>3 + 4 = 7 + 0\<close>, and the
  depth at \<open>(3, 4)\<close> differs from the depth at \<open>(7, 0)\<close> for \<open>time = 0\<close>. In the net,
  point \<open>1\<close> of the horizontal line \<open>23\<close> is at \<open>(-11.5, 10.5)\<close> and point \<open>3\<close> of the
  horizontal line \<open>21\<close> is at \<open>(-9.5, 8.5)\<close>: they lie on one anti-diagonal, and the
  depths computed for them at \<open>time = 0\<close> differ.
\<close>

theorem depth_antidiagonal_counterexample:
  "(3::real) + 4 = 7 + 0
 \<and> depth64 3 4 0 \<noteq> depth64 7 0 0
 \<and> px (children (fishingNet initial) ! 23) 1 = - (23 / 2)
 \<and> py (children (fishingNet initial) ! 23) 1 = 21 / 2
 \<and> px (children (fishingNet initial) ! 21) 3 = - (19 / 2)
 \<and> py (children (fishingNet initial) ! 21) 3 = 17 / 2
 \<and> - (23 / 2) + 21 / 2 = - (19 / 2) + (17 / 2 :: real)
 \<and> depth64 (- (23 / 2)) (21 / 2) 0 \<noteq> depth64 (- (19 / 2)) (17 / 2) 0"
proof -
  have g: "23 < gridSize" "1 < gridSize" "21 < gridSize" "3 < gridSize"
    by (simp_all add: gridSize_def)
  have "px (children (fishingNet initial) ! 23) 1 = - (23 / 2)"
       "py (children (fishingNet initial) ! 23) 1 = 21 / 2"
    using horizontal_xy[OF g(1,2)] by simp_all
  moreover have "px (children (fishingNet initial) ! 21) 3 = - (19 / 2)"
       "py (children (fishingNet initial) ! 21) 3 = 17 / 2"
    using horizontal_xy[OF g(3,4)] by simp_all
  moreover have "depth64 3 4 0 \<noteq> depth64 7 0 0"
    unfolding depth64_3_4_0 depth64_7_0_0 by simp
  moreover have "depth64 (- (23 / 2)) (21 / 2) 0 \<noteq> depth64 (- (19 / 2)) (17 / 2) 0"
    unfolding depth64_net_a depth64_net_b by simp
  ultimately show ?thesis by simp
qed

text \<open>
  Claim C10, amended. Read over the real numbers, the formula
  \<open>sin (x * 0.3 + y * 0.3 + t) * 1 + cos ((x + y) * 0.2) * 0.5\<close> depends on the
  position only through \<open>x + y\<close>: \<open>depth x y t = depth x' y' t\<close> whenever
  \<open>x + y = x' + y'\<close>, so in exact arithmetic any two points of the net with the same
  \<open>x + y\<close>, the points of one anti-diagonal, have the same depth after a call of
  \<open>animate\<close>. As the script computes it, only the argument of \<open>Math.cos\<close>, and with
  it the cosine term, is determined by \<open>x + y\<close>; the argument of \<open>Math.sin\<close> is
  rounded product by product and differs between \<open>(3, 4)\<close> and \<open>(7, 0)\<close>, and
  between the points \<open>(-11.5, 10.5)\<close> and \<open>(-9.5, 8.5)\<close> of the net.
\<close>

theorem depth_antidiagonal:
  assumes "k < length (children (fishingNet s))"
    and "p < pointCount (children (fishingNet s) ! k)"
    and "k' < length (children (fishingNet s))"
    and "p' < pointCount (children (fishingNet s) ! k')"
    and "px (children (fishingNet s) ! k) p + py (children (fishingNet s) ! k) p =
         px (children (fishingNet s) ! k') p' + py (children (fishingNet s) ! k') p'"
  shows "(\<forall>x y x' y' t. x + y = x' + y' \<longrightarrow> depth x y t = depth x' y' t)
       \<and> pz (children (fishingNet (animate r s)) ! k) p =
         pz (children (fishingNet (animate r s)) ! k') p'
       \<and> (\<forall>x y x' y'. x + y = x' + y' \<longrightarrow>
             cos_argument64 x y = cos_argument64 x' y'
           \<and> js_mul (Math_cos (cos_argument64 x y)) (rnd64 0.5) =
             js_mul (Math_cos (cos_argument64 x' y')) (rnd64 0.5))
       \<and> sin_argument64 3 4 0 \<noteq> sin_argument64 7 0 0
       \<and> sin_argument64 (- (23 / 2)) (21 / 2) 0 \<noteq> sin_argument64 (- (19 / 2)) (17 / 2) 0"
proof -
  have "pz (children (fishingNet (animate r s)) ! k) p =
        pz (children (fishingNet (animate r s)) ! k') p'"
    unfolding pz_animate[OF assms(1,2)] pz_animate[OF assms(3,4)]
    using assms(5) by (rule depth_sum)
  moreover have "\<forall>x y x' y' t. x + y = x' + y' \<longrightarrow> depth x y t = depth x' y' (t::real)"
    using depth_sum by blast
  moreover have "\<forall>x y x' y'. x + y = x' + y' \<longrightarrow>
             cos_argument64 x y = cos_argument64 x' y'
           \<and> js_mul (Math_cos (cos_argument64 x y)) (rnd64 0.5) =
             js_mul (Math_cos (cos_argument64 x' y')) (rnd64 0.5)"
    by (simp add: cos_argument64_def js_add_def)
  moreover have "sin_argument64 3 4 0 \<noteq> sin_argument64 7 0 0"
    unfolding sin_argument64_3_4_0 sin_argument64_7_0_0 by simp
  moreover have
    "sin_argument64 (- (23 / 2)) (21 / 2) 0 \<noteq> sin_argument64 (- (19 / 2)) (17 / 2) 0"
    unfolding sin_argument64_net_a sin_argument64_net_b by simp
  ultimately show ?thesis by blast
qed

theorem depth_antidiagonal_witness:
  "depth 3 4 0 = depth 7 0 0
 \<and> pz (children (fishingNet (animate 0.5 initial)) ! 3) 5
   = pz (children (fishingNet (animate 0.5 initial)) ! 4) 4"
proof -
  have k: "3 < length (children (fishingNet initial))"
    and k': "4 < length (children (fishingNet initial))"
    by (simp_all add: length_children_initial gridSize_def)
  have p: "5 < pointCount (children (fishingNet initial) ! 3)"
    and p': "4 < pointCount (children (fishingNet initial) ! 4)"
    by (simp_all add: pointCount_initial gridSize_def)
  have ij: "3 < gridSize" "5 < gridSize" "4 < gridSize" by (simp_all add: gridSize_def)
  have e: "px (children (fishingNet initial) ! 3) 5 + py (children (fishingNet initial) ! 3) 5 =
           px (children (fishingNet initial) ! 4) 4 + py (children (fishingNet initial) ! 4) 4"
    by (simp add: horizontal_xy[OF ij(1,2)] horizontal_xy[OF ij(3,3)])
  have s: "(3::real) + 4 = 7 + 0" by simp
  from depth_antidiagonal[OF k p k' p' e, of "0.5"] s show ?thesis
    by blast
qed

end
